theory Spec2Isabelle
  imports Main
begin

section \<open>Values of the host runtime\<close>

text \<open>
  method-dispatch.c works on the host's \<^verbatim>\<open>SEXP\<close> values. Vectors and closures are
  modelled as values; environments and promises, which the host shares by reference and
  the C code updates in place, are addresses into a store. Only the kinds of value that
  the dispatch code inspects are distinguished.
\<close>

type_synonym addr = nat

datatype SEXPTYPE = NILSXP | SYMSXP | ENVSXP | LANGSXP | CLOSXP | LGLSXP | STRSXP | VECSXP

datatype sexp =
    R_NilValue
  | R_UnboundValue
  | R_MissingArg
  | Env (env_addr: addr)
  | Lang nat
  | Lgl "bool option"
  | Str "string list"
  | Clo "string list" nat "(string \<times> sexp) list"
  | Vec "sexp list" "(string \<times> sexp) list"

text \<open>
  \<open>Clo formals body attrs\<close> is a closure with the names of its formals, an opaque body
  and its attribute list; \<open>Vec elts attrs\<close> is a generic vector (a list) with attributes;
  \<open>Str\<close> is a character vector, \<open>Lgl\<close> a logical scalar (\<open>None\<close> is \<^verbatim>\<open>NA\<close>),
  \<open>Lang\<close> an unevaluated expression. \<^verbatim>\<open>R_UnboundValue\<close> and \<^verbatim>\<open>R_MissingArg\<close> are
  the host's two marker symbols.
\<close>

text \<open>
  The accessors of the host's C interface that method-dispatch.c calls. An attribute is
  looked up by name and is \<^verbatim>\<open>R_NilValue\<close> when absent; an object inherits from a class
  when its \<^verbatim>\<open>class\<close> attribute, a character vector, contains it. \<^verbatim>\<open>Rf_asInteger\<close> is
  given for a logical scalar, where \<^verbatim>\<open>NA\<close> becomes \<^verbatim>\<open>NA_INTEGER\<close>, the least 32-bit
  integer. \<^verbatim>\<open>FORMALS\<close> is defined in C for closures only; of the formals only the names
  (their tags) are used, and the model gives any other object no formals.
\<close>

fun TYPEOF :: "sexp \<Rightarrow> SEXPTYPE" where
  "TYPEOF R_NilValue = NILSXP"
| "TYPEOF R_UnboundValue = SYMSXP"
| "TYPEOF R_MissingArg = SYMSXP"
| "TYPEOF (Env a) = ENVSXP"
| "TYPEOF (Lang n) = LANGSXP"
| "TYPEOF (Lgl b) = LGLSXP"
| "TYPEOF (Str xs) = STRSXP"
| "TYPEOF (Clo fs b as) = CLOSXP"
| "TYPEOF (Vec xs as) = VECSXP"

fun ATTRIB :: "sexp \<Rightarrow> (string \<times> sexp) list" where
  "ATTRIB (Clo fs b as) = as"
| "ATTRIB (Vec xs as) = as"
| "ATTRIB _ = []"

definition Rf_getAttrib :: "sexp \<Rightarrow> string \<Rightarrow> sexp" where
  "Rf_getAttrib x name = (case map_of (ATTRIB x) name of None \<Rightarrow> R_NilValue | Some v \<Rightarrow> v)"

definition Rf_inherits :: "sexp \<Rightarrow> string \<Rightarrow> bool" where
  "Rf_inherits x name =
     (case map_of (ATTRIB x) ''class'' of Some (Str klass) \<Rightarrow> name \<in> set klass | _ \<Rightarrow> False)"

fun Rf_asInteger :: "bool option \<Rightarrow> int" where
  "Rf_asInteger (Some True) = 1"
| "Rf_asInteger (Some False) = 0"
| "Rf_asInteger None = - 2147483648"

fun FORMALS :: "sexp \<Rightarrow> string list" where
  "FORMALS (Clo fs b as) = fs"
| "FORMALS _ = []"

section \<open>The store\<close>

text \<open>
  A promise holds its expression and its value slot; the slot is \<^verbatim>\<open>R_UnboundValue\<close>
  until the promise is forced. An environment frame is the list of its bindings, searched
  from the front. The symbol table is what \<^verbatim>\<open>Rf_install\<close> extends; the two flags are
  the function-local \<^verbatim>\<open>static\<close> caches of the collaborator lookups (set once the
  pointer is no longer \<^verbatim>\<open>NULL\<close>). \<open>evaluated\<close> logs, in order, every promise whose
  expression was evaluated.
\<close>

record promise =
  prcode :: sexp
  prvalue :: sexp

record state =
  frames :: "addr \<Rightarrow> (string \<times> sexp) list"
  promises :: "addr \<Rightarrow> promise"
  symtab :: "string list"
  evaluated :: "addr list"
  R7_method_lookup_error_fun :: bool
  obj_dispatch_fun :: bool

text \<open>
  Symbols are interned, so a symbol is identified with its name (taken to be a valid,
  non-empty symbol name); \<^verbatim>\<open>Rf_install\<close> returns it and records it in the symbol table.
  \<^verbatim>\<open>Rf_findVarInFrame\<close> yields the first binding of the symbol in the frame, or
  \<^verbatim>\<open>R_UnboundValue\<close>. \<^verbatim>\<open>Rf_xlength\<close> is the number of elements of a vector, 0 for
  \<^verbatim>\<open>NULL\<close>, the number of bindings of an environment and 1 for the scalar kinds.
\<close>

definition Rf_install :: "state \<Rightarrow> string \<Rightarrow> string \<times> state" where
  "Rf_install st name = (name, st\<lparr>symtab := List.insert name (symtab st)\<rparr>)"

definition Rf_findVarInFrame :: "state \<Rightarrow> addr \<Rightarrow> string \<Rightarrow> sexp" where
  "Rf_findVarInFrame st rho symbol =
     (case map_of (frames st rho) symbol of None \<Rightarrow> R_UnboundValue | Some v \<Rightarrow> v)"

fun Rf_xlength :: "state \<Rightarrow> sexp \<Rightarrow> nat" where
  "Rf_xlength st R_NilValue = 0"
| "Rf_xlength st (Str xs) = length xs"
| "Rf_xlength st (Vec xs as) = length xs"
| "Rf_xlength st (Env a) = length (frames st a)"
| "Rf_xlength st _ = 1"

text \<open>
  Modelled from the spec: \<^verbatim>\<open>ANY_sym\<close> is declared \<^verbatim>\<open>extern\<close> in method-dispatch.c and
  initialised elsewhere; the specification names the wildcard key \<^verbatim>\<open>ANY\<close>.
\<close>

definition ANY_sym :: string where
  "ANY_sym = ''ANY''"

section \<open>The resolver: \<^verbatim>\<open>method_rec\<close>\<close>

text \<open>
  \<open>method_rec\<close> is the C function; \<open>method_rec_for\<close> is its \<^verbatim>\<open>for\<close> loop over the
  class vector, started at index 0, which yields \<open>Some val\<close> when the loop body returns
  and \<open>None\<close> when the loop runs to its end. A signature is a list of class vectors.
\<close>

function method_rec :: "state \<Rightarrow> addr \<Rightarrow> string list list \<Rightarrow> nat \<Rightarrow> sexp \<times> state"
  and method_rec_for ::
    "state \<Rightarrow> addr \<Rightarrow> string list list \<Rightarrow> nat \<Rightarrow> string list \<Rightarrow> nat \<Rightarrow> sexp option \<times> state"
where
  "method_rec st table signature signature_itr =
     (if signature_itr \<ge> length signature then (R_NilValue, st)
      else
        let classes = signature ! signature_itr in
        case method_rec_for st table signature signature_itr classes 0 of
          (Some val, st1) \<Rightarrow> (val, st1)
        | (None, st1) \<Rightarrow>
            let val = Rf_findVarInFrame st1 table ANY_sym;
                (val, st2) =
                  (if TYPEOF val = ENVSXP
                   then method_rec st1 (env_addr val) signature (signature_itr + 1)
                   else (val, st1))
            in if TYPEOF val = CLOSXP then (val, st2) else (R_NilValue, st2))"
| "method_rec_for st table signature signature_itr classes i =
     (if i < length classes then
        let (klass, st1) = Rf_install st (classes ! i);
            val = Rf_findVarInFrame st1 table klass;
            (val, st2) =
              (if TYPEOF val = ENVSXP
               then method_rec st1 (env_addr val) signature (signature_itr + 1)
               else (val, st1))
        in if TYPEOF val = CLOSXP then (Some val, st2)
           else method_rec_for st2 table signature signature_itr classes (i + 1)
      else (None, st))"
  by pat_completeness auto

termination
  by (relation "(\<lambda>x. case x of
        Inl (st, table, sg, itr) \<Rightarrow> (if length sg \<le> itr then 0 else length sg - itr + 1)
      | Inr (st, table, sg, itr, classes, i) \<Rightarrow> length sg - itr + 1)
    <*mlex*> measure (\<lambda>x. case x of
        Inl (st, table, sg, itr) \<Rightarrow> (if itr < length sg then length (sg ! itr) + 1 else 0)
      | Inr (st, table, sg, itr, classes, i) \<Rightarrow> length classes - i)")
    (auto simp: wf_mlex mlex_iff)

section \<open>The resolver as the specification words it\<close>

text \<open>
  The specification's rule, over the same tables: \<open>lookup\<close> gives the child under a key
  or nothing; a child that is a node is an environment, a child that is a method is a
  closure; \<open>None\<close> is \<^emph>\<open>absent\<close>. \<open>first_found\<close> is the rule's
  \<^emph>\<open>for each class name, in order\<close> with its early return.
\<close>

definition lookup :: "(addr \<Rightarrow> (string \<times> sexp) list) \<Rightarrow> addr \<Rightarrow> string \<Rightarrow> sexp option" where
  "lookup T node key = map_of (T node) key"

fun first_found :: "('a \<Rightarrow> 'b option) \<Rightarrow> 'a list \<Rightarrow> 'b option" where
  "first_found f [] = None"
| "first_found f (c # cs) = (case f c of Some r \<Rightarrow> Some r | None \<Rightarrow> first_found f cs)"

function resolve ::
  "(addr \<Rightarrow> (string \<times> sexp) list) \<Rightarrow> addr \<Rightarrow> string list list \<Rightarrow> nat \<Rightarrow> sexp option"
where
  "resolve T node S i =
     (if i \<ge> length S then None
      else
        case first_found
               (\<lambda>c. case lookup T node c of
                      Some (Env child) \<Rightarrow> resolve T child S (i + 1)
                    | Some (Clo fs b as) \<Rightarrow> Some (Clo fs b as)
                    | _ \<Rightarrow> None)
               (S ! i) of
          Some r \<Rightarrow> Some r
        | None \<Rightarrow>
            (case lookup T node ''ANY'' of
               Some (Env child) \<Rightarrow> resolve T child S (i + 1)
             | Some (Clo fs b as) \<Rightarrow> Some (Clo fs b as)
             | _ \<Rightarrow> None))"
  by pat_completeness auto
termination
  by (relation "measure (\<lambda>(T, node, S, i). length S - i)") auto

text \<open>
  What one table key contributes at a node, in the rule's words: a node bound under the
  key is searched at the next depth, a method bound under it is the result, and anything
  else contributes nothing.
\<close>

definition probe ::
  "(addr \<Rightarrow> (string \<times> sexp) list) \<Rightarrow> addr \<Rightarrow> string list list \<Rightarrow> nat \<Rightarrow> string \<Rightarrow> sexp option" where
  "probe T node S i key =
     (case lookup T node key of
        Some (Env child) \<Rightarrow> resolve T child S (i + 1)
      | Some (Clo fs b as) \<Rightarrow> Some (Clo fs b as)
      | _ \<Rightarrow> None)"

section \<open>Method lookup: \<^verbatim>\<open>method_\<close>\<close>

text \<open>
  The C functions \<^verbatim>\<open>method_\<close> and \<^verbatim>\<open>method_call_\<close> are \<open>method'\<close> and
  \<open>method_call'\<close> here, as a name cannot end with an underscore.

  How a call of the C code ends: it returns a value; it raises a host error with a
  message; it calls the collaborator \<^verbatim>\<open>method_lookup_error\<close> with the generic's name,
  its dispatch arguments and the signature, after which control never comes back (the
  collaborator raises, and the C code spins in \<^verbatim>\<open>while(1)\<close> behind the call); or it
  hands the rebuilt call, a callee and its arguments, to the host's evaluator.
\<close>

datatype carg = Promise addr | Symbol string | Tagged string string

datatype outcome =
    Returns sexp
  | Raises string
  | MethodLookupError sexp sexp "string list list"
  | Evaluates sexp "carg list"

definition R7_method_lookup_error :: "state \<Rightarrow> sexp \<Rightarrow> string list list \<Rightarrow> outcome \<times> state" where
  "R7_method_lookup_error st generic signature =
     (let (ns, st1) = Rf_install st ''R7'';
          st2 = (if \<not> R7_method_lookup_error_fun st1
                 then (let (f, st') = Rf_install st1 ''method_lookup_error''
                       in st'\<lparr>R7_method_lookup_error_fun := True\<rparr>)
                 else st1);
          (name_sym, st3) = Rf_install st2 ''name'';
          name = Rf_getAttrib generic name_sym;
          (args_sym, st4) = Rf_install st3 ''dispatch_args'';
          args = Rf_getAttrib generic args_sym
      in (MethodLookupError name args signature, st4))"

definition method' :: "state \<Rightarrow> sexp \<Rightarrow> string list list \<Rightarrow> bool option \<Rightarrow> outcome \<times> state" where
  "method' st generic signature error' =
     (if \<not> Rf_inherits generic ''R7_generic'' then (Returns R_NilValue, st)
      else
        let (methods_sym, st1) = Rf_install st ''methods'';
            table = Rf_getAttrib generic methods_sym
        in if TYPEOF table \<noteq> ENVSXP
           then (Raises ''Corrupt R7_generic: @methods isn't an environment'', st1)
           else
             let (m, st2) = method_rec st1 (env_addr table) signature 0;
                 error = Rf_asInteger error'
             in if error \<noteq> 0 \<and> m = R_NilValue
                then R7_method_lookup_error st2 generic signature
                else (Returns m, st2))"

section \<open>Full dispatch: \<^verbatim>\<open>method_call_\<close>\<close>

text \<open>
  The host side of a call is a parameter: \<open>eval_expr\<close> gives the value of a promise's
  expression, \<open>obj_dispatch\<close> is the collaborator that turns a value into its class
  vector. The caller's frame binds every formal to a promise.
\<close>

record host =
  eval_expr :: "sexp \<Rightarrow> sexp"
  obj_dispatch :: "sexp \<Rightarrow> string list"

definition PRCODE :: "state \<Rightarrow> addr \<Rightarrow> sexp" where
  "PRCODE st p = prcode (promises st p)"

definition PRVALUE :: "state \<Rightarrow> addr \<Rightarrow> sexp" where
  "PRVALUE st p = prvalue (promises st p)"

definition SET_PRVALUE :: "state \<Rightarrow> addr \<Rightarrow> sexp \<Rightarrow> state" where
  "SET_PRVALUE st p v = st\<lparr>promises := (promises st)(p := (promises st p)\<lparr>prvalue := v\<rparr>)\<rparr>"

text \<open>
  \<^verbatim>\<open>Rf_eval\<close> of a promise: a promise whose value slot is still unbound is forced (its
  expression is evaluated, the value stored); a forced promise yields the stored value.
\<close>

definition Rf_eval :: "host \<Rightarrow> state \<Rightarrow> addr \<Rightarrow> sexp \<times> state" where
  "Rf_eval h st p =
     (if PRVALUE st p = R_UnboundValue
      then (let v = eval_expr h (PRCODE st p)
            in (v, (SET_PRVALUE st p v)\<lparr>evaluated := evaluated st @ [p]\<rparr>))
      else (PRVALUE st p, st))"

definition R7_obj_dispatch :: "host \<Rightarrow> state \<Rightarrow> sexp \<Rightarrow> string list \<times> state" where
  "R7_obj_dispatch h st object =
     (let (ns, st1) = Rf_install st ''R7'';
          st2 = (if \<not> obj_dispatch_fun st1
                 then (let (f, st') = Rf_install st1 ''obj_dispatch''
                       in st'\<lparr>obj_dispatch_fun := True\<rparr>)
                 else st1)
      in (obj_dispatch h object, st2))"

text \<open>
  A super-shim is a list of the true value and the class vector to dispatch on. The C
  code applies \<^verbatim>\<open>VECTOR_ELT\<close> to whatever inherits from \<^verbatim>\<open>R7_super\<close>. The accessor
  is defined on a list and an index within it; applied to anything else the model
  reports an error. What the elements are the C code does not ask: the first is written
  into the promise and the second is stored as the class vector of the argument.
\<close>

fun VECTOR_ELT :: "sexp \<Rightarrow> nat \<Rightarrow> sexp option" where
  "VECTOR_ELT (Vec xs as) i = (if i < length xs then Some (xs ! i) else None)"
| "VECTOR_ELT _ i = None"

text \<open>
  The entries of \<^verbatim>\<open>dispatch_classes\<close> are the objects the loop stores, and
  \<^verbatim>\<open>method_rec\<close> reads each with \<^verbatim>\<open>Rf_xlength\<close> and \<^verbatim>\<open>STRING_ELT\<close>.
  \<open>class_names\<close> is an entry as \<^verbatim>\<open>method_rec\<close> reads it: the names of a character
  vector, and no name for an object of length 0 (\<^verbatim>\<open>NULL\<close>, the empty list), whose loop
  does not run. \<^verbatim>\<open>STRING_ELT\<close> on a non-empty object that is not a character vector is
  outside the accessor's domain, a precondition of the host's interface as is that of
  \<^verbatim>\<open>Rf_install\<close> on names; the model reads no name from such an object.
\<close>

fun class_names :: "sexp \<Rightarrow> string list" where
  "class_names (Str cl) = cl"
| "class_names _ = []"

text \<open>
  The \<^verbatim>\<open>for\<close> loop of \<^verbatim>\<open>method_call_\<close> over the formals is the signature
  builder. \<open>method_call_body\<close> is one run of the loop body for the formal \<open>name\<close> at
  index \<open>i\<close>: it yields the class vector list and the arguments appended to the call
  so far, or an error. \<open>method_call_for\<close> is the loop: it runs the body once per
  formal (\<^verbatim>\<open>n_args\<close> times), the list being what is left of \<^verbatim>\<open>formals\<close>.
\<close>

definition method_call_body ::
  "host \<Rightarrow> (string \<Rightarrow> addr) \<Rightarrow> nat \<Rightarrow> state \<Rightarrow> nat \<Rightarrow> string \<Rightarrow> sexp list \<Rightarrow> carg list
     \<Rightarrow> (string + sexp list \<times> carg list) \<times> state"
where
  "method_call_body h envir n_dispatch st i name dispatch_classes mcall =
     (let arg = envir name in
      if i < n_dispatch then
        if PRCODE st arg \<noteq> R_MissingArg then
          let (val, st1) = Rf_eval h st arg in
          if \<not> Rf_inherits val ''R7_super'' then
            let st2 = SET_PRVALUE st1 arg val;
                mcall = mcall @ [Promise arg];
                (klass, st3) = R7_obj_dispatch h st2 val
            in (Inr (dispatch_classes[i := Str klass], mcall), st3)
          else
            (case VECTOR_ELT val 0 of
               None \<Rightarrow> (Inl ''VECTOR_ELT() outside the R7_super object'', st1)
             | Some true_val \<Rightarrow>
                 let st2 = SET_PRVALUE st1 arg true_val;
                     mcall = mcall @ [Promise arg]
                 in (case VECTOR_ELT val 1 of
                       None \<Rightarrow> (Inl ''VECTOR_ELT() outside the R7_super object'', st2)
                     | Some classes \<Rightarrow> (Inr (dispatch_classes[i := classes], mcall), st2)))
        else
          (Inr (dispatch_classes[i := Str [''MISSING'']], mcall @ [Symbol name]), st)
      else
        (Inr (dispatch_classes, mcall @ [Tagged name name]), st))"

fun method_call_for ::
  "host \<Rightarrow> (string \<Rightarrow> addr) \<Rightarrow> nat \<Rightarrow> state \<Rightarrow> nat \<Rightarrow> string list \<Rightarrow> sexp list \<Rightarrow> carg list
     \<Rightarrow> (string + sexp list \<times> carg list) \<times> state"
where
  "method_call_for h envir n_dispatch st i [] dispatch_classes mcall =
     (Inr (dispatch_classes, mcall), st)"
| "method_call_for h envir n_dispatch st i (name # formals) dispatch_classes mcall =
     (case method_call_body h envir n_dispatch st i name dispatch_classes mcall of
        (Inl msg, st') \<Rightarrow> (Inl msg, st')
      | (Inr (dispatch_classes, mcall), st') \<Rightarrow>
          method_call_for h envir n_dispatch st' (i + 1) formals dispatch_classes mcall)"

text \<open>
  \<^verbatim>\<open>method_call_\<close> in its two parts. \<open>method_call_signature\<close> is the function up to
  the end of the loop: the formals, the number of dispatch arguments, the vector of
  \<^verbatim>\<open>n_dispatch\<close> entries (each \<^verbatim>\<open>NULL\<close> to begin with), the empty argument list, and
  the loop. \<open>method_call'\<close> then looks the method up with \<^verbatim>\<open>error = TRUE\<close>, on the
  entries as \<^verbatim>\<open>method_rec\<close> reads them, puts it at the head of the call and has the
  call evaluated in the caller's environment. The argument \<^verbatim>\<open>call\<close> is not used by the
  C code.
\<close>

definition method_call_signature ::
  "host \<Rightarrow> state \<Rightarrow> sexp \<Rightarrow> (string \<Rightarrow> addr)
     \<Rightarrow> (string + sexp list \<times> carg list) \<times> state" where
  "method_call_signature h st generic envir =
     (let formals = FORMALS generic;
          (dispatch_args_sym, st1) = Rf_install st ''dispatch_args'';
          dispatch_args = Rf_getAttrib generic dispatch_args_sym;
          n_dispatch = Rf_xlength st1 dispatch_args;
          dispatch_classes = replicate n_dispatch R_NilValue
      in method_call_for h envir n_dispatch st1 0 formals dispatch_classes [])"

definition method_call' ::
  "host \<Rightarrow> state \<Rightarrow> sexp \<Rightarrow> sexp \<Rightarrow> (string \<Rightarrow> addr) \<Rightarrow> outcome \<times> state" where
  "method_call' h st call generic envir =
     (case method_call_signature h st generic envir of
        (Inl msg, st2) \<Rightarrow> (Raises msg, st2)
      | (Inr (dispatch_classes, mcall), st2) \<Rightarrow>
          (case method' st2 generic (map class_names dispatch_classes) (Some True) of
             (Returns m, st3) \<Rightarrow> (Evaluates m mcall, st3)
           | (other, st3) \<Rightarrow> (other, st3)))"

text \<open>
  The builder's precondition on shims: every supplied dispatch argument whose value
  inherits from \<^verbatim>\<open>R7_super\<close> is a list of at least two elements, so that both uses of
  \<^verbatim>\<open>VECTOR_ELT\<close> stay within it.
\<close>

definition shims_are_lists :: "host \<Rightarrow> state \<Rightarrow> sexp \<Rightarrow> (string \<Rightarrow> addr) \<Rightarrow> bool" where
  "shims_are_lists h st generic envir =
     list_all
       (\<lambda>name. PRCODE st (envir name) = R_MissingArg \<or>
          \<not> Rf_inherits (fst (Rf_eval h st (envir name))) ''R7_super'' \<or>
          (VECTOR_ELT (fst (Rf_eval h st (envir name))) 0 \<noteq> None \<and>
           VECTOR_ELT (fst (Rf_eval h st (envir name))) 1 \<noteq> None))
       (take (Rf_xlength st (Rf_getAttrib generic ''dispatch_args'')) (FORMALS generic))"

text \<open>
  The resolver's precondition on the class vectors that shims store. \<^verbatim>\<open>method_rec\<close> reads
  an entry of the signature with \<^verbatim>\<open>Rf_xlength\<close> and \<^verbatim>\<open>STRING_ELT\<close>, and \<^verbatim>\<open>STRING_ELT\<close> is
  defined on character vectors: an entry can be read when it is a character vector, or
  has length 0, in which case no element of it is asked for. The second element of every
  shim among the supplied dispatch arguments is to be such an object.
\<close>

fun reads_as_names :: "state \<Rightarrow> sexp \<Rightarrow> bool" where
  "reads_as_names st (Str cl) = True"
| "reads_as_names st x = (Rf_xlength st x = 0)"

definition shim_classes_are_names :: "host \<Rightarrow> state \<Rightarrow> sexp \<Rightarrow> (string \<Rightarrow> addr) \<Rightarrow> bool" where
  "shim_classes_are_names h st generic envir =
     list_all
       (\<lambda>name. PRCODE st (envir name) = R_MissingArg \<or>
          \<not> Rf_inherits (fst (Rf_eval h st (envir name))) ''R7_super'' \<or>
          (case VECTOR_ELT (fst (Rf_eval h st (envir name))) 1 of
             Some cl \<Rightarrow> reads_as_names st cl
           | None \<Rightarrow> False))
       (take (Rf_xlength st (Rf_getAttrib generic ''dispatch_args'')) (FORMALS generic))"

section \<open>What lies outside method-dispatch.c\<close>

text \<open>
  Modelled from the spec: the constructor of a super-shim is code of the package that is
  not in method-dispatch.c. The specification has the shim record the original value
  and the tail of that value's class list beginning one position after the chosen class;
  \<open>classes_of\<close> is the collaborator that gives a value its class list.
\<close>

definition R7_super :: "(sexp \<Rightarrow> string list) \<Rightarrow> sexp \<Rightarrow> string \<Rightarrow> sexp" where
  "R7_super classes_of value chosen =
     Vec [value, Str (tl (dropWhile (\<lambda>c. c \<noteq> chosen) (classes_of value)))]
       [(''class'', Str [''R7_super''])]"

text \<open>
  Modelled from the spec: how the method called sees an argument of the rebuilt call;
  the evaluation of the call belongs to the host. The specification has a promise that
  holds its value stay evaluated (the method reads the value, nothing is evaluated
  again), a symbol naming an argument that was not supplied leave the method's default,
  if any, to apply, and a symbol naming a supplied argument bind late, as an ordinary
  forwarded argument does.
\<close>

datatype binding = Memoized sexp | Deferred addr | Default

definition forwarded :: "state \<Rightarrow> (string \<Rightarrow> addr) \<Rightarrow> string \<Rightarrow> binding" where
  "forwarded st envir name =
     (if PRCODE st (envir name) = R_MissingArg then Default
      else if PRVALUE st (envir name) \<noteq> R_UnboundValue then Memoized (PRVALUE st (envir name))
      else Deferred (envir name))"

fun method_binding :: "state \<Rightarrow> (string \<Rightarrow> addr) \<Rightarrow> carg \<Rightarrow> binding" where
  "method_binding st envir (Promise p) =
     (if PRVALUE st p \<noteq> R_UnboundValue then Memoized (PRVALUE st p) else Deferred p)"
| "method_binding st envir (Symbol name) = forwarded st envir name"
| "method_binding st envir (Tagged tag name) = forwarded st envir name"

section \<open>The resolver with a bound on its call depth\<close>

text \<open>
  \<open>method_rec_depth d\<close> is \<open>method_rec\<close> with a budget \<open>d\<close> of nested calls: every
  call of the C function uses one unit, the \<^verbatim>\<open>for\<close> loop (\<open>method_for_depth\<close>, over the
  classes still to probe) uses none, and \<open>None\<close> says that the budget ran out.
\<close>

fun method_for_depth ::
  "(state \<Rightarrow> addr \<Rightarrow> (sexp \<times> state) option) \<Rightarrow> state \<Rightarrow> addr \<Rightarrow> string list
     \<Rightarrow> (sexp option \<times> state) option"
where
  "method_for_depth call st table [] = Some (None, st)"
| "method_for_depth call st table (c # cs) =
     (let (klass, st1) = Rf_install st c;
          val = Rf_findVarInFrame st1 table klass
      in case (if TYPEOF val = ENVSXP then call st1 (env_addr val) else Some (val, st1)) of
           None \<Rightarrow> None
         | Some (val, st2) \<Rightarrow>
             if TYPEOF val = CLOSXP then Some (Some val, st2)
             else method_for_depth call st2 table cs)"

fun method_rec_depth ::
  "nat \<Rightarrow> state \<Rightarrow> addr \<Rightarrow> string list list \<Rightarrow> nat \<Rightarrow> (sexp \<times> state) option"
where
  "method_rec_depth 0 st table signature signature_itr = None"
| "method_rec_depth (Suc d) st table signature signature_itr =
     (if signature_itr \<ge> length signature then Some (R_NilValue, st)
      else
        case method_for_depth (\<lambda>st' child. method_rec_depth d st' child signature (signature_itr + 1))
               st table (signature ! signature_itr) of
          None \<Rightarrow> None
        | Some (Some val, st1) \<Rightarrow> Some (val, st1)
        | Some (None, st1) \<Rightarrow>
            (let val = Rf_findVarInFrame st1 table ANY_sym
             in case (if TYPEOF val = ENVSXP
                      then method_rec_depth d st1 (env_addr val) signature (signature_itr + 1)
                      else Some (val, st1)) of
                  None \<Rightarrow> None
                | Some (val, st2) \<Rightarrow>
                    if TYPEOF val = CLOSXP then Some (val, st2) else Some (R_NilValue, st2)))"

section \<open>A dispatch table to run the definitions on\<close>

text \<open>
  The table \<^verbatim>\<open>{dog: {cat: m1, MISSING: m4, ANY: m2}, ANY: {ANY: m3}}\<close> of a generic
  \<^verbatim>\<open>speak(x, y)\<close>: environment 0 is the root, 1 the node under \<^verbatim>\<open>dog\<close>, 2 the node
  under \<^verbatim>\<open>ANY\<close>. Environment 3 is bound to itself under \<^verbatim>\<open>loop\<close>, and environment 4
  holds a closure directly under \<^verbatim>\<open>dog\<close>. Promise \<open>p\<close> holds the expression
  \<open>Lang p\<close> and is not yet forced; promise 13 is a missing argument.
\<close>

definition m1 :: sexp where "m1 = Clo [''x'', ''y''] 1 []"
definition m2 :: sexp where "m2 = Clo [''x'', ''y''] 2 []"
definition m3 :: sexp where "m3 = Clo [''x'', ''y''] 3 []"
definition m4 :: sexp where "m4 = Clo [''x'', ''y''] 4 []"

definition speak_frames :: "addr \<Rightarrow> (string \<times> sexp) list" where
  "speak_frames a =
     (if a = 0 then [(''dog'', Env 1), (''ANY'', Env 2)]
      else if a = 1 then [(''cat'', m1), (''MISSING'', m4), (''ANY'', m2)]
      else if a = 2 then [(''ANY'', m3)]
      else if a = 3 then [(''loop'', Env 3)]
      else if a = 4 then [(''dog'', m1)]
      else [])"

definition st0 :: state where
  "st0 = \<lparr>frames = speak_frames,
          promises = (\<lambda>p. \<lparr>prcode = (if p = 13 then R_MissingArg else Lang p),
                            prvalue = R_UnboundValue\<rparr>),
          symtab = [], evaluated = [],
          R7_method_lookup_error_fun = False, obj_dispatch_fun = False\<rparr>"

text \<open>
  Three objects to look methods up on: a generic whose table is environment 4, a generic
  whose \<^verbatim>\<open>methods\<close> attribute is not an environment, and a closure that is no generic.
\<close>

definition bark :: sexp where
  "bark = Clo [''x''] 0
     [(''class'', Str [''R7_generic'', ''function'']), (''name'', Str [''bark'']),
      (''dispatch_args'', Str [''x'']), (''methods'', Env 4)]"

definition corrupt :: sexp where
  "corrupt = Clo [''x''] 0
     [(''class'', Str [''R7_generic'', ''function'']), (''name'', Str [''corrupt'']),
      (''dispatch_args'', Str [''x'']), (''methods'', Vec [] [])]"

definition plain :: sexp where
  "plain = Clo [''x''] 0 [(''methods'', Env 4)]"

text \<open>
  The generic \<^verbatim>\<open>speak(x, y)\<close> dispatches on both arguments, \<^verbatim>\<open>fetch(x, y)\<close> on the
  first only. The host evaluates the expression of promise 10 to the value \<open>rex\<close>, of
  promise 11 to \<open>tom\<close>, and of promise 12 to the super-shim of \<open>rex\<close> with the class
  vector \<^verbatim>\<open>animal\<close>; \<open>rex\<close> has the classes \<^verbatim>\<open>dog, animal\<close> and \<open>tom\<close> the classes
  \<^verbatim>\<open>cat, animal\<close>. The three frames bind \<^verbatim>\<open>x\<close> and \<^verbatim>\<open>y\<close>.
\<close>

definition speak :: sexp where
  "speak = Clo [''x'', ''y''] 0
     [(''class'', Str [''R7_generic'', ''function'']), (''name'', Str [''speak'']),
      (''dispatch_args'', Str [''x'', ''y'']), (''methods'', Env 0)]"

definition fetch :: sexp where
  "fetch = Clo [''x'', ''y''] 0
     [(''class'', Str [''R7_generic'', ''function'']), (''name'', Str [''fetch'']),
      (''dispatch_args'', Str [''x'']), (''methods'', Env 4)]"

definition rex :: sexp where "rex = Str [''rex'']"
definition tom :: sexp where "tom = Str [''tom'']"

definition super_rex :: sexp where
  "super_rex = Vec [rex, Str [''animal'']] [(''class'', Str [''R7_super''])]"

definition h0 :: host where
  "h0 = \<lparr>eval_expr = (\<lambda>e. if e = Lang 10 then rex else if e = Lang 11 then tom
                          else if e = Lang 12 then super_rex else R_NilValue),
         obj_dispatch = (\<lambda>v. if v = rex then [''dog'', ''animal'']
                             else if v = tom then [''cat'', ''animal''] else [''NULL''])\<rparr>"

definition env_xy :: "string \<Rightarrow> addr" where
  "env_xy name = (if name = ''x'' then 10 else 11)"

definition env_super :: "string \<Rightarrow> addr" where
  "env_super name = (if name = ''x'' then 12 else 11)"

definition env_missing :: "string \<Rightarrow> addr" where
  "env_missing name = (if name = ''x'' then 10 else 13)"

text \<open>
  A second table, \<^verbatim>\<open>{person: {dog: m_dog}, ANY: {puppy: m_puppy, animal: m_animal}}\<close>, of a
  generic \<^verbatim>\<open>walk(x, y)\<close>: environment 0 is the root, 1 the node under \<^verbatim>\<open>person\<close>, 2 the
  node under \<^verbatim>\<open>ANY\<close>. The value \<open>fido\<close> has the classes \<^verbatim>\<open>puppy\<close>, \<^verbatim>\<open>dog\<close>, \<^verbatim>\<open>animal\<close>;
  promise 22 holds the super of \<open>fido\<close> relative to \<^verbatim>\<open>dog\<close>.
\<close>

definition m_dog :: sexp where "m_dog = Clo [''x'', ''y''] 5 []"
definition m_puppy :: sexp where "m_puppy = Clo [''x'', ''y''] 6 []"
definition m_animal :: sexp where "m_animal = Clo [''x'', ''y''] 7 []"

definition walk_frames :: "addr \<Rightarrow> (string \<times> sexp) list" where
  "walk_frames a =
     (if a = 0 then [(''person'', Env 1), (''ANY'', Env 2)]
      else if a = 1 then [(''dog'', m_dog)]
      else if a = 2 then [(''puppy'', m_puppy), (''animal'', m_animal)]
      else [])"

definition st_walk :: state where
  "st_walk = \<lparr>frames = walk_frames,
          promises = (\<lambda>p. \<lparr>prcode = Lang p, prvalue = R_UnboundValue\<rparr>),
          symtab = [], evaluated = [],
          R7_method_lookup_error_fun = False, obj_dispatch_fun = False\<rparr>"

definition walk :: sexp where
  "walk = Clo [''x'', ''y''] 0
     [(''class'', Str [''R7_generic'', ''function'']), (''name'', Str [''walk'']),
      (''dispatch_args'', Str [''x'', ''y'']), (''methods'', Env 0)]"

definition ann :: sexp where "ann = Str [''ann'']"
definition fido :: sexp where "fido = Str [''fido'']"

definition walk_classes :: "sexp \<Rightarrow> string list" where
  "walk_classes v = (if v = ann then [''person'']
                     else if v = fido then [''puppy'', ''dog'', ''animal''] else [''NULL''])"

definition h_walk :: host where
  "h_walk = \<lparr>eval_expr = (\<lambda>e. if e = Lang 20 then ann else if e = Lang 21 then fido
                          else if e = Lang 22 then R7_super walk_classes fido ''dog''
                          else R_NilValue),
             obj_dispatch = walk_classes\<rparr>"

definition env_walk :: "string \<Rightarrow> addr" where
  "env_walk name = (if name = ''x'' then 20 else 21)"

definition env_walk_super :: "string \<Rightarrow> addr" where
  "env_walk_super name = (if name = ''x'' then 20 else 22)"

text \<open>
  A value that inherits from \<^verbatim>\<open>R7_super\<close> and whose second element is the empty list
  \<^verbatim>\<open>list()\<close>, no character vector: promise 14 holds it.
\<close>

definition super_bare :: sexp where
  "super_bare = Vec [rex, Vec [] []] [(''class'', Str [''R7_super''])]"

definition h_bare :: host where
  "h_bare = \<lparr>eval_expr = (\<lambda>e. if e = Lang 14 then super_bare else if e = Lang 11 then tom
                            else R_NilValue),
             obj_dispatch = obj_dispatch h0\<rparr>"

definition env_bare :: "string \<Rightarrow> addr" where
  "env_bare name = (if name = ''x'' then 14 else if name = ''y'' then 11 else 13)"

definition env_bare_missing :: "string \<Rightarrow> addr" where
  "env_bare_missing name = (if name = ''x'' then 13 else 14)"

section \<open>Unfolding the resolver\<close>

declare method_rec.simps [simp del] method_rec_for.simps [simp del] resolve.simps [simp del]

lemma Rf_findVarInFrame_symtab [simp]:
  "Rf_findVarInFrame (st\<lparr>symtab := syms\<rparr>) rho symbol = Rf_findVarInFrame st rho symbol"
  by (simp add: Rf_findVarInFrame_def)

lemma method_rec_unfold:
  "signature_itr < length signature \<Longrightarrow>
   method_rec_for st table signature signature_itr (signature ! signature_itr) 0 = (r, st1) \<Longrightarrow>
   method_rec st table signature signature_itr =
     (case r of
        Some val \<Rightarrow> (val, st1)
      | None \<Rightarrow>
          (let val = Rf_findVarInFrame st1 table ANY_sym;
               p = (if TYPEOF val = ENVSXP
                    then method_rec st1 (env_addr val) signature (signature_itr + 1)
                    else (val, st1))
           in if TYPEOF (fst p) = CLOSXP then p else (R_NilValue, snd p)))"
  by (subst method_rec.simps) (auto simp: Let_def split: prod.splits option.splits)

lemma method_rec_for_unfold:
  "i < length classes \<Longrightarrow>
   method_rec_for st table signature signature_itr classes i =
     (let st1 = st\<lparr>symtab := List.insert (classes ! i) (symtab st)\<rparr>;
          val = Rf_findVarInFrame st table (classes ! i);
          p = (if TYPEOF val = ENVSXP
               then method_rec st1 (env_addr val) signature (signature_itr + 1)
               else (val, st1))
      in if TYPEOF (fst p) = CLOSXP then (Some (fst p), snd p)
         else method_rec_for (snd p) table signature signature_itr classes (i + 1))"
  by (subst method_rec_for.simps) (auto simp: Let_def Rf_install_def split: prod.splits)

lemma method_rec_past_end:
  "length signature \<le> signature_itr \<Longrightarrow> method_rec st table signature signature_itr = (R_NilValue, st)"
  by (subst method_rec.simps) simp

lemma method_rec_for_past_end:
  "\<not> i < length classes \<Longrightarrow> method_rec_for st table signature signature_itr classes i = (None, st)"
  by (subst method_rec_for.simps) simp

lemma method_rec_state:
  "\<exists>syms. snd (method_rec st table sg itr) = st\<lparr>symtab := syms\<rparr>"
  "\<exists>syms. snd (method_rec_for st table sg itr classes i) = st\<lparr>symtab := syms\<rparr>"
proof (induction st table sg itr and st table sg itr classes i rule: method_rec_method_rec_for.induct)
  case (1 st table signature signature_itr)
  show ?case
  proof (cases "length signature \<le> signature_itr")
    case True
    then show ?thesis
      by (auto simp: method_rec_past_end intro: exI [of _ "symtab st"])
  next
    case False
    obtain r st1 where loop: "method_rec_for st table signature signature_itr (signature ! signature_itr) 0 = (r, st1)"
      by (cases "method_rec_for st table signature signature_itr (signature ! signature_itr) 0")
    from "1.IH"(1) [OF False refl] loop obtain syms1 where st1: "st1 = st\<lparr>symtab := syms1\<rparr>"
      by auto
    from False have lt: "signature_itr < length signature" by simp
    show ?thesis
    proof (cases r)
      case (Some v)
      with st1 show ?thesis
        by (auto simp: method_rec_unfold [OF lt loop])
    next
      case None
      show ?thesis
      proof (cases "TYPEOF (Rf_findVarInFrame st1 table ANY_sym) = ENVSXP")
        case True
        from "1.IH"(2) [OF False refl loop [symmetric] None refl True]
        obtain syms2 where "snd (method_rec st1 (env_addr (Rf_findVarInFrame st1 table ANY_sym)) signature (signature_itr + 1)) = st1\<lparr>symtab := syms2\<rparr>"
          by auto
        with None True st1 show ?thesis
          by (auto simp: method_rec_unfold [OF lt loop] Let_def)
      next
        case F2: False
        with None st1 show ?thesis
          by (auto simp: method_rec_unfold [OF lt loop] Let_def)
      qed
    qed
  qed
next
  case (2 st table signature signature_itr classes i)
  show ?case
  proof (cases "i < length classes")
    case False
    then show ?thesis
      by (auto simp: method_rec_for_past_end intro: exI [of _ "symtab st"])
  next
    case True
    define st1 where "st1 = st\<lparr>symtab := List.insert (classes ! i) (symtab st)\<rparr>"
    define val where "val = Rf_findVarInFrame st1 table (classes ! i)"
    define p where "p = (if TYPEOF val = ENVSXP
               then method_rec st1 (env_addr val) signature (signature_itr + 1)
               else (val, st1))"
    have inst: "(classes ! i, st1) = Rf_install st (classes ! i)"
      by (simp add: Rf_install_def st1_def)
    have p_state: "\<exists>syms. snd p = st\<lparr>symtab := syms\<rparr>"
    proof (cases "TYPEOF val = ENVSXP")
      case T: True
      from "2.IH"(1) [OF True refl inst val_def T]
      show ?thesis by (auto simp: p_def T st1_def)
    next
      case F: False
      then show ?thesis by (auto simp: p_def st1_def)
    qed
    have unf: "method_rec_for st table signature signature_itr classes i =
      (if TYPEOF (fst p) = CLOSXP then (Some (fst p), snd p)
         else method_rec_for (snd p) table signature signature_itr classes (i + 1))"
      by (simp add: method_rec_for_unfold [OF True] Let_def p_def val_def st1_def)
    show ?thesis
    proof (cases "TYPEOF (fst p) = CLOSXP")
      case T: True
      with unf p_state show ?thesis by simp
    next
      case F: False
      have "(fst p, snd p) = (if TYPEOF val = ENVSXP
               then method_rec st1 (env_addr val) signature (signature_itr + 1)
               else (val, st1))" by (simp add: p_def)
      from "2.IH"(2) [OF True refl inst val_def refl this F]
      obtain syms2 where "snd (method_rec_for (snd p) table signature signature_itr classes (i + 1)) = (snd p)\<lparr>symtab := syms2\<rparr>"
        by auto
      with p_state F unf show ?thesis by auto
    qed
  qed
qed


lemma first_found_Some:
  "first_found f cs = Some r \<Longrightarrow> \<exists>c \<in> set cs. f c = Some r"
  by (induction cs) (auto split: option.splits)

lemma resolve_closure: "resolve T node S i = Some m \<Longrightarrow> TYPEOF m = CLOSXP"
proof (induction T node S i arbitrary: m rule: resolve.induct)
  case (1 T node S i)
  from "1.prems" have lt: "\<not> length S \<le> i"
    by (subst (asm) resolve.simps) (simp split: if_splits)
  let ?f = "\<lambda>c. case lookup T node c of
                      Some (Env child) \<Rightarrow> resolve T child S (i + 1)
                    | Some (Clo fs b as) \<Rightarrow> Some (Clo fs b as)
                    | _ \<Rightarrow> None"
  show ?case
  proof (cases "first_found ?f (S ! i)")
    case (Some r)
    with "1.prems" lt have "r = m"
      by (subst (asm) resolve.simps) simp
    with Some obtain c where c: "c \<in> set (S ! i)" "?f c = Some m"
      by (auto dest: first_found_Some)
    then show ?thesis
      using "1.IH"(1) [OF lt]
      by (auto split: option.splits sexp.splits)
  next
    case None
    with "1.prems" lt have "(case lookup T node ''ANY'' of
               Some (Env child) \<Rightarrow> resolve T child S (i + 1)
             | Some (Clo fs b as) \<Rightarrow> Some (Clo fs b as)
             | _ \<Rightarrow> None) = Some m"
      by (subst (asm) resolve.simps) simp
    then show ?thesis
      using "1.IH"(2) [OF lt None]
      by (auto split: option.splits sexp.splits)
  qed
qed

lemma probe_result:
  assumes rec: "TYPEOF val = ENVSXP \<Longrightarrow>
      fst (method_rec st1 (env_addr val) sg (itr + 1)) =
        (case resolve T (env_addr val) sg (itr + 1) of Some m \<Rightarrow> m | None \<Rightarrow> R_NilValue)"
    and val: "val = (case lk of None \<Rightarrow> R_UnboundValue | Some v \<Rightarrow> v)"
  shows "(case lk of
            Some (Env child) \<Rightarrow> resolve T child sg (itr + 1)
          | Some (Clo fs b as) \<Rightarrow> Some (Clo fs b as)
          | _ \<Rightarrow> None) =
         (let p = (if TYPEOF val = ENVSXP
                   then method_rec st1 (env_addr val) sg (itr + 1)
                   else (val, st1))
          in if TYPEOF (fst p) = CLOSXP then Some (fst p) else None)"
proof (cases lk)
  case None
  with val show ?thesis by simp
next
  case (Some v)
  with val have v: "val = v" by simp
  show ?thesis
  proof (cases v)
    case (Env child)
    with v rec have "fst (method_rec st1 child sg (itr + 1)) =
        (case resolve T child sg (itr + 1) of Some m \<Rightarrow> m | None \<Rightarrow> R_NilValue)"
      by simp
    with Some Env v show ?thesis
      by (auto simp: Let_def dest: resolve_closure split: option.splits)
  qed (use Some v in \<open>simp_all add: Let_def\<close>)
qed


lemma Rf_findVarInFrame_lookup:
  "Rf_findVarInFrame st table k =
     (case lookup (frames st) table k of None \<Rightarrow> R_UnboundValue | Some v \<Rightarrow> v)"
  by (simp add: Rf_findVarInFrame_def lookup_def)

lemma method_rec_frames [simp]:
  "frames (snd (method_rec st table sg itr)) = frames st"
  "frames (snd (method_rec_for st table sg itr classes i)) = frames st"
  using method_rec_state(1) [of st table sg itr] method_rec_state(2) [of st table sg itr classes i]
  by auto

lemma method_rec_resolve:
  "fst (method_rec st table sg itr) =
     (case resolve (frames st) table sg itr of Some m \<Rightarrow> m | None \<Rightarrow> R_NilValue)"
  "fst (method_rec_for st table sg itr classes i) =
     first_found
       (\<lambda>c. case lookup (frames st) table c of
              Some (Env child) \<Rightarrow> resolve (frames st) child sg (itr + 1)
            | Some (Clo fs b as) \<Rightarrow> Some (Clo fs b as)
            | _ \<Rightarrow> None)
       (drop i classes)"
proof (induction st table sg itr and st table sg itr classes i rule: method_rec_method_rec_for.induct)
  case (1 st table signature signature_itr)
  let ?T = "frames st"
  show ?case
  proof (cases "length signature \<le> signature_itr")
    case True
    then show ?thesis
      by (simp add: method_rec_past_end resolve.simps)
  next
    case False
    then have lt: "signature_itr < length signature" by simp
    obtain r st1 where loop:
      "method_rec_for st table signature signature_itr (signature ! signature_itr) 0 = (r, st1)"
      by (cases "method_rec_for st table signature signature_itr (signature ! signature_itr) 0")
    have T1: "frames st1 = ?T"
      using method_rec_frames(2) [of st table signature signature_itr "signature ! signature_itr" 0] loop
      by simp
    from "1.IH"(1) [OF False refl] loop
    have r: "first_found
       (\<lambda>c. case lookup ?T table c of
              Some (Env child) \<Rightarrow> resolve ?T child signature (signature_itr + 1)
            | Some (Clo fs b as) \<Rightarrow> Some (Clo fs b as)
            | _ \<Rightarrow> None)
       (signature ! signature_itr) = r"
      by simp
    show ?thesis
    proof (cases r)
      case (Some v)
      with r lt show ?thesis
        by (simp add: method_rec_unfold [OF lt loop] resolve.simps [of ?T table signature signature_itr])
    next
      case None
      define val where "val = Rf_findVarInFrame st1 table ANY_sym"
      have rec: "TYPEOF val = ENVSXP \<Longrightarrow>
        fst (method_rec st1 (env_addr val) signature (signature_itr + 1)) =
          (case resolve ?T (env_addr val) signature (signature_itr + 1) of
             Some m \<Rightarrow> m | None \<Rightarrow> R_NilValue)"
        using "1.IH"(2) [OF False refl loop [symmetric] None val_def] T1 by simp
      have val: "val = (case lookup ?T table ''ANY'' of None \<Rightarrow> R_UnboundValue | Some v \<Rightarrow> v)"
        by (simp add: val_def Rf_findVarInFrame_lookup T1 ANY_sym_def)
      from probe_result [OF rec val] None r lt show ?thesis
        by (simp add: method_rec_unfold [OF lt loop]
            resolve.simps [of ?T table signature signature_itr] Let_def val_def [symmetric])
    qed
  qed
next
  case (2 st table signature signature_itr classes i)
  let ?T = "frames st"
  let ?f = "\<lambda>c. case lookup ?T table c of
              Some (Env child) \<Rightarrow> resolve ?T child signature (signature_itr + 1)
            | Some (Clo fs b as) \<Rightarrow> Some (Clo fs b as)
            | _ \<Rightarrow> None"
  show ?case
  proof (cases "i < length classes")
    case False
    then show ?thesis
      by (simp add: method_rec_for_past_end)
  next
    case True
    define st1 where "st1 = st\<lparr>symtab := List.insert (classes ! i) (symtab st)\<rparr>"
    define val where "val = Rf_findVarInFrame st1 table (classes ! i)"
    define p where "p = (if TYPEOF val = ENVSXP
               then method_rec st1 (env_addr val) signature (signature_itr + 1)
               else (val, st1))"
    have inst: "(classes ! i, st1) = Rf_install st (classes ! i)"
      by (simp add: Rf_install_def st1_def)
    have T1: "frames st1 = ?T" by (simp add: st1_def)
    have Tp: "frames (snd p) = ?T" by (simp add: p_def T1)
    have rec: "TYPEOF val = ENVSXP \<Longrightarrow>
        fst (method_rec st1 (env_addr val) signature (signature_itr + 1)) =
          (case resolve ?T (env_addr val) signature (signature_itr + 1) of
             Some m \<Rightarrow> m | None \<Rightarrow> R_NilValue)"
      using "2.IH"(1) [OF True refl inst val_def] T1 by simp
    have val: "val = (case lookup ?T table (classes ! i) of None \<Rightarrow> R_UnboundValue | Some v \<Rightarrow> v)"
      by (simp add: val_def Rf_findVarInFrame_lookup T1)
    have head: "?f (classes ! i) = (if TYPEOF (fst p) = CLOSXP then Some (fst p) else None)"
      using probe_result [OF rec val] by (simp add: Let_def p_def)
    have unf: "method_rec_for st table signature signature_itr classes i =
      (if TYPEOF (fst p) = CLOSXP then (Some (fst p), snd p)
         else method_rec_for (snd p) table signature signature_itr classes (i + 1))"
      by (simp add: method_rec_for_unfold [OF True] Let_def p_def val_def st1_def)
    have drop: "drop i classes = classes ! i # drop (i + 1) classes"
      using True by (simp add: Cons_nth_drop_Suc)
    show ?thesis
    proof (cases "TYPEOF (fst p) = CLOSXP")
      case T: True
      with unf head drop show ?thesis by simp
    next
      case F: False
      have "(fst p, snd p) = (if TYPEOF val = ENVSXP
               then method_rec st1 (env_addr val) signature (signature_itr + 1)
               else (val, st1))" by (simp add: p_def)
      from "2.IH"(2) [OF True refl inst val_def refl this F]
      have "fst (method_rec_for (snd p) table signature signature_itr classes (i + 1)) =
          first_found ?f (drop (i + 1) classes)"
        unfolding Tp by simp
      with F unf head drop show ?thesis by simp
    qed
  qed
qed

lemma first_found_skip:
  "(\<And>k. k \<in> set pre \<Longrightarrow> f k = None) \<Longrightarrow> first_found f (pre @ cs) = first_found f cs"
  by (induction pre) auto

lemma resolve_first_bound_key:
  assumes lt: "i < length S"
    and cls: "S ! i = pre @ c # post"
    and pre: "\<And>k. k \<in> set pre \<Longrightarrow> lookup T node k = None \<or> lookup T node k = Some R_UnboundValue"
    and c: "lookup T node c = Some (Clo fs b as)"
  shows "resolve T node S i = Some (Clo fs b as)"
proof -
  let ?f = "\<lambda>c. case lookup T node c of
                      Some (Env child) \<Rightarrow> resolve T child S (i + 1)
                    | Some (Clo fs b as) \<Rightarrow> Some (Clo fs b as)
                    | _ \<Rightarrow> None"
  have "\<And>k. k \<in> set pre \<Longrightarrow> ?f k = None"
    using pre by fastforce
  then have "first_found ?f (pre @ c # post) = first_found ?f (c # post)"
    by (rule first_found_skip)
  also have "\<dots> = Some (Clo fs b as)"
    using c by simp
  finally show ?thesis
    using lt cls by (subst resolve.simps) simp
qed

lemma method_rec_first_bound_key:
  assumes "itr < length sg" "sg ! itr = pre @ c # post"
    and "\<forall>k \<in> set pre. Rf_findVarInFrame st table k = R_UnboundValue"
    and "TYPEOF (Rf_findVarInFrame st table c) = CLOSXP"
  shows "fst (method_rec st table sg itr) = Rf_findVarInFrame st table c"
proof -
  from assms(4) obtain fs b as where clo: "Rf_findVarInFrame st table c = Clo fs b as"
    by (cases "Rf_findVarInFrame st table c") auto
  then have c: "lookup (frames st) table c = Some (Clo fs b as)"
    by (auto simp: Rf_findVarInFrame_lookup split: option.splits)
  have pre: "\<And>k. k \<in> set pre \<Longrightarrow>
      lookup (frames st) table k = None \<or> lookup (frames st) table k = Some R_UnboundValue"
  proof -
    fix k assume "k \<in> set pre"
    with assms(3) have "Rf_findVarInFrame st table k = R_UnboundValue" by simp
    then show "lookup (frames st) table k = None \<or> lookup (frames st) table k = Some R_UnboundValue"
      by (cases "lookup (frames st) table k") (simp_all add: Rf_findVarInFrame_lookup)
  qed
  have "resolve (frames st) table sg itr = Some (Clo fs b as)"
    by (rule resolve_first_bound_key [OF assms(1,2) pre c])
  with clo show ?thesis
    by (simp add: method_rec_resolve(1))
qed

section \<open>Facts about method lookup\<close>

lemma R7_method_lookup_error_outcome:
  "fst (R7_method_lookup_error st generic sg) =
     MethodLookupError (Rf_getAttrib generic ''name'') (Rf_getAttrib generic ''dispatch_args'') sg"
  by (simp add: R7_method_lookup_error_def Rf_install_def Let_def)

lemma R7_method_lookup_error_state:
  "frames (snd (R7_method_lookup_error st generic sg)) = frames st \<and>
   promises (snd (R7_method_lookup_error st generic sg)) = promises st \<and>
   evaluated (snd (R7_method_lookup_error st generic sg)) = evaluated st"
  by (simp add: R7_method_lookup_error_def Rf_install_def Let_def)

lemma method_on_generic:
  assumes "Rf_inherits generic ''R7_generic''"
    and "Rf_getAttrib generic ''methods'' = Env table"
    and "method_rec (snd (Rf_install st ''methods'')) table sg 0 = (m, st2)"
  shows "method' st generic sg e =
     (if Rf_asInteger e \<noteq> 0 \<and> m = R_NilValue then R7_method_lookup_error st2 generic sg
      else (Returns m, st2))"
  using assms by (simp add: method'_def Rf_install_def Let_def)

lemma method_state:
  "frames (snd (method' st generic sg e)) = frames st \<and>
   promises (snd (method' st generic sg e)) = promises st \<and>
   evaluated (snd (method' st generic sg e)) = evaluated st"
proof (cases "Rf_inherits generic ''R7_generic''")
  case False
  then show ?thesis
    by (simp add: method'_def)
next
  case True
  note gen = this
  show ?thesis
  proof (cases "TYPEOF (Rf_getAttrib generic ''methods'') = ENVSXP")
    case False
    with gen show ?thesis
      by (simp add: method'_def Rf_install_def Let_def)
  next
    case True
    then obtain table where tab: "Rf_getAttrib generic ''methods'' = Env table"
      by (cases "Rf_getAttrib generic ''methods''") auto
    obtain m st2 where rec: "method_rec (snd (Rf_install st ''methods'')) table sg 0 = (m, st2)"
      by (cases "method_rec (snd (Rf_install st ''methods'')) table sg 0")
    from method_rec_state(1) [of "snd (Rf_install st ''methods'')" table sg 0] rec
    obtain syms where st2: "st2 = st\<lparr>symtab := syms\<rparr>"
      by (auto simp: Rf_install_def)
    show ?thesis
      unfolding method_on_generic [OF gen tab rec]
      using R7_method_lookup_error_state [of st2 generic sg]
      by (simp add: st2)
  qed
qed

lemma method_result_frames:
  "frames st' = frames st \<Longrightarrow> fst (method' st' generic sg (Some False)) = fst (method' st generic sg (Some False))"
proof (cases "Rf_inherits generic ''R7_generic''")
  case False
  then show ?thesis by (simp add: method'_def)
next
  case True
  assume fr: "frames st' = frames st"
  show ?thesis
  proof (cases "TYPEOF (Rf_getAttrib generic ''methods'') = ENVSXP")
    case False
    with True show ?thesis
      by (simp add: method'_def Rf_install_def Let_def)
  next
    case T: True
    then obtain table where tab: "Rf_getAttrib generic ''methods'' = Env table"
      by (cases "Rf_getAttrib generic ''methods''") auto
    have "fst (method_rec (snd (Rf_install st' ''methods'')) table sg 0) =
          fst (method_rec (snd (Rf_install st ''methods'')) table sg 0)"
      by (simp add: method_rec_resolve(1) Rf_install_def fr)
    then show ?thesis
      using method_on_generic [OF True tab, of st sg _ _ "Some False"]
        method_on_generic [OF True tab, of st' sg _ _ "Some False"]
      by (metis Rf_asInteger.simps(2) fst_conv prod.collapse)
  qed
qed

section \<open>The call depth of the resolver\<close>

lemma method_for_depth_total:
  assumes call: "\<And>st' child. call st' child = Some (method_rec st' child sg (itr + 1))"
  shows "method_for_depth call st table (drop i classes) =
           Some (method_rec_for st table sg itr classes i)"
proof (induction "length classes - i" arbitrary: i st)
  case 0
  then show ?case by (simp add: method_rec_for_past_end)
next
  case (Suc n)
  then have lt: "i < length classes" by simp
  then have drop: "drop i classes = classes ! i # drop (i + 1) classes"
    by (simp add: Cons_nth_drop_Suc)
  from Suc have n: "n = length classes - (i + 1)" by simp
  have IH: "\<And>st. method_for_depth call st table (drop (Suc i) classes) =
      Some (method_rec_for st table sg itr classes (Suc i))"
    using Suc.hyps(1) [OF n] by simp
  show ?case
    unfolding drop method_rec_for_unfold [OF lt]
    by (simp add: Let_def Rf_install_def call IH split: prod.splits)
qed

lemma method_rec_depth_total:
  "length sg - itr < d \<Longrightarrow> method_rec_depth d st table sg itr = Some (method_rec st table sg itr)"
proof (induction d arbitrary: st table itr)
  case 0
  then show ?case by simp
next
  case (Suc d)
  show ?case
  proof (cases "length sg \<le> itr")
    case True
    then show ?thesis by (simp add: method_rec_past_end)
  next
    case False
    then have lt: "itr < length sg" by simp
    with Suc.prems have d: "length sg - (itr + 1) < d" by simp
    have call: "\<And>st' child. method_rec_depth d st' child sg (itr + 1) =
        Some (method_rec st' child sg (itr + 1))"
      by (rule Suc.IH [OF d])
    have loop: "method_for_depth (\<lambda>st' child. method_rec_depth d st' child sg (itr + 1))
        st table (sg ! itr) = Some (method_rec_for st table sg itr (sg ! itr) 0)"
      using method_for_depth_total [where call = "\<lambda>st' child. method_rec_depth d st' child sg (itr + 1)",
          OF call, of st table 0 "sg ! itr"]
      by simp
    obtain r st1 where r: "method_rec_for st table sg itr (sg ! itr) 0 = (r, st1)"
      by (cases "method_rec_for st table sg itr (sg ! itr) 0")
    have call': "\<And>st' child. method_rec_depth d st' child sg (Suc itr) =
        Some (method_rec st' child sg (Suc itr))"
      using call by simp
    show ?thesis
      unfolding method_rec_depth.simps(2) loop r method_rec_unfold [OF lt r]
      using lt
      by (cases r) (simp_all add: call' Let_def split: prod.splits)
  qed
qed

section \<open>The signature builder, step by step\<close>

lemma R7_obj_dispatch_simps [simp]:
  "fst (R7_obj_dispatch h st v) = obj_dispatch h v"
  "frames (snd (R7_obj_dispatch h st v)) = frames st"
  "promises (snd (R7_obj_dispatch h st v)) = promises st"
  "evaluated (snd (R7_obj_dispatch h st v)) = evaluated st"
  by (simp_all add: R7_obj_dispatch_def Rf_install_def Let_def)

lemma Rf_eval_simps:
  "fst (Rf_eval h st a) =
     (if PRVALUE st a = R_UnboundValue then eval_expr h (PRCODE st a) else PRVALUE st a)"
  "frames (snd (Rf_eval h st a)) = frames st"
  "evaluated (snd (Rf_eval h st a)) =
     evaluated st @ (if PRVALUE st a = R_UnboundValue then [a] else [])"
  "b \<noteq> a \<Longrightarrow> promises (snd (Rf_eval h st a)) b = promises st b"
  "prcode (promises (snd (Rf_eval h st a)) b) = prcode (promises st b)"
  by (simp_all add: Rf_eval_def Let_def SET_PRVALUE_def PRVALUE_def)

lemma SET_PRVALUE_simps [simp]:
  "frames (SET_PRVALUE st a v) = frames st"
  "evaluated (SET_PRVALUE st a v) = evaluated st"
  "PRVALUE (SET_PRVALUE st a v) a = v"
  "b \<noteq> a \<Longrightarrow> promises (SET_PRVALUE st a v) b = promises st b"
  "prcode (promises (SET_PRVALUE st a v) b) = prcode (promises st b)"
  by (simp_all add: SET_PRVALUE_def PRVALUE_def)

text \<open>What one run of the loop body does, case by case.\<close>

lemma body_non_dispatch:
  "\<not> i < nd \<Longrightarrow>
   method_call_body h envir nd st i name dc mcall = (Inr (dc, mcall @ [Tagged name name]), st)"
  by (simp add: method_call_body_def)

lemma body_missing:
  "i < nd \<Longrightarrow> PRCODE st (envir name) = R_MissingArg \<Longrightarrow>
   method_call_body h envir nd st i name dc mcall =
     (Inr (dc[i := Str [''MISSING'']], mcall @ [Symbol name]), st)"
  by (simp add: method_call_body_def)

lemma body_ordinary:
  "i < nd \<Longrightarrow> PRCODE st (envir name) \<noteq> R_MissingArg \<Longrightarrow>
   \<not> Rf_inherits (fst (Rf_eval h st (envir name))) ''R7_super'' \<Longrightarrow>
   method_call_body h envir nd st i name dc mcall =
     (Inr (dc[i := Str (obj_dispatch h (fst (Rf_eval h st (envir name))))],
        mcall @ [Promise (envir name)]),
      snd (R7_obj_dispatch h
        (SET_PRVALUE (snd (Rf_eval h st (envir name))) (envir name) (fst (Rf_eval h st (envir name))))
        (fst (Rf_eval h st (envir name)))))"
  by (simp add: method_call_body_def Let_def split_beta)

lemma body_super:
  "i < nd \<Longrightarrow> PRCODE st (envir name) \<noteq> R_MissingArg \<Longrightarrow>
   Rf_inherits (fst (Rf_eval h st (envir name))) ''R7_super'' \<Longrightarrow>
   VECTOR_ELT (fst (Rf_eval h st (envir name))) 0 = Some true_val \<Longrightarrow>
   VECTOR_ELT (fst (Rf_eval h st (envir name))) 1 = Some cl \<Longrightarrow>
   method_call_body h envir nd st i name dc mcall =
     (Inr (dc[i := cl], mcall @ [Promise (envir name)]),
      SET_PRVALUE (snd (Rf_eval h st (envir name))) (envir name) true_val)"
  by (simp add: method_call_body_def Let_def split_beta)

lemma body_frame:
  "frames (snd (method_call_body h envir nd st i name dc mcall)) = frames st"
  by (simp add: method_call_body_def Let_def split_beta Rf_eval_simps split: option.splits)

lemma body_prcode:
  "prcode (promises (snd (method_call_body h envir nd st i name dc mcall)) b) = prcode (promises st b)"
  by (simp add: method_call_body_def Let_def split_beta Rf_eval_simps split: option.splits)

lemma body_other_promise:
  "b \<noteq> envir name \<Longrightarrow>
   promises (snd (method_call_body h envir nd st i name dc mcall)) b = promises st b"
  by (simp add: method_call_body_def Let_def split_beta Rf_eval_simps split: option.splits)

lemma body_missing_promise:
  "PRCODE st b = R_MissingArg \<Longrightarrow>
   promises (snd (method_call_body h envir nd st i name dc mcall)) b = promises st b"
  by (cases "b = envir name") (simp_all add: body_other_promise, simp add: method_call_body_def Let_def)

lemma body_evaluated:
  "evaluated (snd (method_call_body h envir nd st i name dc mcall)) =
     evaluated st @
       (if i < nd \<and> PRCODE st (envir name) \<noteq> R_MissingArg \<and> PRVALUE st (envir name) = R_UnboundValue
        then [envir name] else [])"
  by (simp add: method_call_body_def Let_def split_beta Rf_eval_simps split: option.splits)

lemma body_result:
  "fst (method_call_body h envir nd st i name dc mcall) = Inr (dc', mcall') \<Longrightarrow>
   length dc' = length dc \<and> (\<forall>j. j \<noteq> i \<longrightarrow> dc' ! j = dc ! j) \<and>
   (\<exists>arg. mcall' = mcall @ [arg])"
  by (auto simp: method_call_body_def Let_def split: prod.splits option.splits if_splits)

section \<open>The signature builder, over all formals\<close>

lemma loop_Cons_Inr:
  assumes "fst (method_call_for h envir nd st i (name # formals) dc mcall) = Inr r"
  obtains dc1 mc1 where
    "fst (method_call_body h envir nd st i name dc mcall) = Inr (dc1, mc1)"
    "method_call_for h envir nd st i (name # formals) dc mcall =
       method_call_for h envir nd (snd (method_call_body h envir nd st i name dc mcall)) (i + 1)
         formals dc1 mc1"
  using assms
  by (cases "method_call_body h envir nd st i name dc mcall")
     (auto split: sum.splits prod.splits)

lemma loop_frames:
  "frames (snd (method_call_for h envir nd st i formals dc mcall)) = frames st"
proof (induction formals arbitrary: st i dc mcall)
  case Nil
  show ?case by simp
next
  case (Cons name formals)
  show ?case
    using body_frame [of h envir nd st i name dc mcall]
    by (cases "method_call_body h envir nd st i name dc mcall")
       (auto simp: Cons.IH split: sum.splits prod.splits)
qed

lemma loop_other_promise:
  "b \<notin> envir ` set formals \<Longrightarrow>
   promises (snd (method_call_for h envir nd st i formals dc mcall)) b = promises st b"
proof (induction formals arbitrary: st i dc mcall)
  case Nil
  show ?case by simp
next
  case (Cons name formals)
  then have b: "b \<noteq> envir name" "b \<notin> envir ` set formals" by auto
  show ?case
    using body_other_promise [of b envir name h nd st i dc mcall] b(1)
    by (cases "method_call_body h envir nd st i name dc mcall")
       (auto simp: Cons.IH [OF b(2)] split: sum.splits prod.splits)
qed

lemma loop_missing_promise:
  "PRCODE st b = R_MissingArg \<Longrightarrow>
   promises (snd (method_call_for h envir nd st i formals dc mcall)) b = promises st b"
proof (induction formals arbitrary: st i dc mcall)
  case Nil
  show ?case by simp
next
  case (Cons name formals)
  let ?st1 = "snd (method_call_body h envir nd st i name dc mcall)"
  have p: "promises ?st1 b = promises st b"
    using Cons.prems by (rule body_missing_promise)
  then have "PRCODE ?st1 b = R_MissingArg"
    using Cons.prems by (simp add: PRCODE_def)
  from Cons.IH [OF this] p show ?case
    by (cases "method_call_body h envir nd st i name dc mcall")
       (auto split: sum.splits prod.splits)
qed

lemma loop_result:
  "fst (method_call_for h envir nd st i formals dc mcall) = Inr (dc', mcall') \<Longrightarrow>
   length dc' = length dc \<and> (\<forall>j < i. dc' ! j = dc ! j) \<and>
   length mcall' = length mcall + length formals \<and> (\<forall>j < length mcall. mcall' ! j = mcall ! j)"
proof (induction formals arbitrary: st i dc mcall)
  case Nil
  then show ?case by simp
next
  case (Cons name formals)
  from Cons.prems obtain dc1 mc1 where
    body: "fst (method_call_body h envir nd st i name dc mcall) = Inr (dc1, mc1)" and
    loop: "method_call_for h envir nd st i (name # formals) dc mcall =
       method_call_for h envir nd (snd (method_call_body h envir nd st i name dc mcall)) (i + 1)
         formals dc1 mc1"
    by (rule loop_Cons_Inr)
  from body_result [OF body] obtain arg where
    b: "length dc1 = length dc" "\<forall>j. j \<noteq> i \<longrightarrow> dc1 ! j = dc ! j" "mc1 = mcall @ [arg]"
    by auto
  from Cons.IH [of _ "i + 1" dc1 mc1] Cons.prems loop
  have r: "length dc' = length dc1" "\<forall>j < i + 1. dc' ! j = dc1 ! j"
    "length mcall' = length mc1 + length formals" "\<forall>j < length mc1. mcall' ! j = mc1 ! j"
    by auto
  show ?case
    using b r by (auto simp: nth_append)
qed

lemma loop_at:
  assumes "fst (method_call_for h envir nd st i formals dc mcall) = Inr (dc', mcall')"
    and "distinct (map envir formals)"
    and "k < length formals"
  shows "\<exists>stk dck mck dck' mck'.
     promises stk (envir (formals ! k)) = promises st (envir (formals ! k)) \<and>
     length dck = length dc \<and> length mck = length mcall + k \<and>
     fst (method_call_body h envir nd stk (i + k) (formals ! k) dck mck) = Inr (dck', mck') \<and>
     dc' ! (i + k) = dck' ! (i + k) \<and>
     mcall' ! (length mcall + k) = mck' ! (length mcall + k) \<and>
     promises (snd (method_call_for h envir nd st i formals dc mcall)) (envir (formals ! k)) =
       promises (snd (method_call_body h envir nd stk (i + k) (formals ! k) dck mck))
         (envir (formals ! k))"
  using assms
proof (induction formals arbitrary: st i dc mcall k)
  case Nil
  then show ?case by simp
next
  case (Cons name formals)
  let ?st1 = "snd (method_call_body h envir nd st i name dc mcall)"
  from Cons.prems(1) obtain dc1 mc1 where
    body: "fst (method_call_body h envir nd st i name dc mcall) = Inr (dc1, mc1)" and
    loop: "method_call_for h envir nd st i (name # formals) dc mcall =
       method_call_for h envir nd ?st1 (i + 1) formals dc1 mc1"
    by (rule loop_Cons_Inr)
  from body_result [OF body] obtain arg where
    b: "length dc1 = length dc" "mc1 = mcall @ [arg]"
    by auto
  have rest: "fst (method_call_for h envir nd ?st1 (i + 1) formals dc1 mc1) = Inr (dc', mcall')"
    using Cons.prems(1) loop by simp
  from Cons.prems(2) have dist: "distinct (map envir formals)" "envir name \<notin> envir ` set formals"
    by auto
  show ?case
  proof (cases k)
    case 0
    from loop_result [OF rest] b
    have "dc' ! i = dc1 ! i" "mcall' ! length mcall = mc1 ! length mcall"
      by auto
    moreover have "promises (snd (method_call_for h envir nd ?st1 (i + 1) formals dc1 mc1)) (envir name) =
        promises ?st1 (envir name)"
      using dist(2) by (rule loop_other_promise)
    ultimately show ?thesis
      using body 0 loop
      by (intro exI [of _ st] exI [of _ dc] exI [of _ mcall] exI [of _ dc1] exI [of _ mc1]) simp
  next
    case (Suc k')
    with Cons.prems(3) have k': "k' < length formals" by simp
    from Cons.IH [OF rest dist(1) k'] obtain stk dck mck dck' mck' where
      ih: "promises stk (envir (formals ! k')) = promises ?st1 (envir (formals ! k'))"
        "length dck = length dc1" "length mck = length mc1 + k'"
        "fst (method_call_body h envir nd stk (i + 1 + k') (formals ! k') dck mck) = Inr (dck', mck')"
        "dc' ! (i + 1 + k') = dck' ! (i + 1 + k')"
        "mcall' ! (length mc1 + k') = mck' ! (length mc1 + k')"
        "promises (snd (method_call_for h envir nd ?st1 (i + 1) formals dc1 mc1)) (envir (formals ! k')) =
           promises (snd (method_call_body h envir nd stk (i + 1 + k') (formals ! k') dck mck))
             (envir (formals ! k'))"
      by blast
    have "envir (formals ! k') \<noteq> envir name"
      using dist(2) k' by (metis image_eqI nth_mem)
    then have "promises ?st1 (envir (formals ! k')) = promises st (envir (formals ! k'))"
      by (rule body_other_promise)
    with ih b Suc loop show ?thesis
      by (intro exI [of _ stk] exI [of _ dck] exI [of _ mck] exI [of _ dck'] exI [of _ mck']) simp
  qed
qed

lemma loop_evaluated:
  assumes "fst (method_call_for h envir nd st i formals dc mcall) = Inr r"
    and "distinct (map envir formals)"
  shows "evaluated (snd (method_call_for h envir nd st i formals dc mcall)) =
     evaluated st @
       filter (\<lambda>a. PRCODE st a \<noteq> R_MissingArg \<and> PRVALUE st a = R_UnboundValue)
         (map envir (take (nd - i) formals))"
  using assms
proof (induction formals arbitrary: st i dc mcall)
  case Nil
  then show ?case by simp
next
  case (Cons name formals)
  let ?st1 = "snd (method_call_body h envir nd st i name dc mcall)"
  from Cons.prems(1) obtain dc1 mc1 where
    body: "fst (method_call_body h envir nd st i name dc mcall) = Inr (dc1, mc1)" and
    loop: "method_call_for h envir nd st i (name # formals) dc mcall =
       method_call_for h envir nd ?st1 (i + 1) formals dc1 mc1"
    by (rule loop_Cons_Inr)
  have rest: "fst (method_call_for h envir nd ?st1 (i + 1) formals dc1 mc1) = Inr r"
    using Cons.prems(1) loop by simp
  from Cons.prems(2) have dist: "distinct (map envir formals)" "envir name \<notin> envir ` set formals"
    by auto
  have same: "\<And>a. a \<in> set (map envir (take (nd - (i + 1)) formals)) \<Longrightarrow>
      (PRCODE ?st1 a \<noteq> R_MissingArg \<and> PRVALUE ?st1 a = R_UnboundValue) =
      (PRCODE st a \<noteq> R_MissingArg \<and> PRVALUE st a = R_UnboundValue)"
  proof -
    fix a assume "a \<in> set (map envir (take (nd - (i + 1)) formals))"
    then have "a \<in> envir ` set formals"
      by (auto dest: in_set_takeD)
    with dist(2) have "a \<noteq> envir name" by blast
    then have "promises ?st1 a = promises st a"
      by (rule body_other_promise)
    then show "(PRCODE ?st1 a \<noteq> R_MissingArg \<and> PRVALUE ?st1 a = R_UnboundValue) =
      (PRCODE st a \<noteq> R_MissingArg \<and> PRVALUE st a = R_UnboundValue)"
      by (simp add: PRCODE_def PRVALUE_def)
  qed
  have "evaluated (snd (method_call_for h envir nd ?st1 (i + 1) formals dc1 mc1)) =
      evaluated ?st1 @
        filter (\<lambda>a. PRCODE st a \<noteq> R_MissingArg \<and> PRVALUE st a = R_UnboundValue)
          (map envir (take (nd - (i + 1)) formals))"
  proof -
    have "filter (\<lambda>a. PRCODE ?st1 a \<noteq> R_MissingArg \<and> PRVALUE ?st1 a = R_UnboundValue)
            (map envir (take (nd - (i + 1)) formals)) =
          filter (\<lambda>a. PRCODE st a \<noteq> R_MissingArg \<and> PRVALUE st a = R_UnboundValue)
            (map envir (take (nd - (i + 1)) formals))"
      by (rule filter_cong [OF refl]) (rule same)
    with Cons.IH [OF rest dist(1)] show ?thesis by simp
  qed
  moreover have "take (nd - i) (name # formals) = name # take (nd - (i + 1)) formals" if "i < nd"
  proof -
    from that have "nd - i = Suc (nd - (i + 1))" by arith
    then show ?thesis by simp
  qed
  ultimately show ?case
    unfolding loop body_evaluated
    by (cases "i < nd") simp_all
qed

lemma Rf_xlength_symtab [simp]:
  "Rf_xlength (st\<lparr>symtab := syms\<rparr>) x = Rf_xlength st x"
  by (cases x) simp_all

lemma signature_unfold:
  "method_call_signature h st generic envir =
     method_call_for h envir (Rf_xlength st (Rf_getAttrib generic ''dispatch_args''))
       (st\<lparr>symtab := List.insert ''dispatch_args'' (symtab st)\<rparr>) 0 (FORMALS generic)
       (replicate (Rf_xlength st (Rf_getAttrib generic ''dispatch_args'')) R_NilValue) []"
  by (simp add: method_call_signature_def Rf_install_def Let_def)

lemma method_call_unfold:
  "fst (method_call_signature h st generic envir) = Inr (dc, mcall) \<Longrightarrow>
   method_call' h st call generic envir =
     (case method' (snd (method_call_signature h st generic envir)) generic
             (map class_names dc) (Some True) of
        (Returns m, st3) \<Rightarrow> (Evaluates m mcall, st3)
      | (other, st3) \<Rightarrow> (other, st3))"
  by (cases "method_call_signature h st generic envir") (simp add: method_call'_def)

lemma Rf_eval_value_cong:
  "promises st2 a = promises st a \<Longrightarrow> fst (Rf_eval h st2 a) = fst (Rf_eval h st a)"
  by (simp add: Rf_eval_simps PRVALUE_def PRCODE_def)

text \<open>The entry of the signature, the argument of the call and the value slot at a
  dispatch position, by the kind of argument found there.\<close>

lemma body_super_Inr:
  assumes "i < nd" "PRCODE st (envir name) \<noteq> R_MissingArg"
    and "Rf_inherits (fst (Rf_eval h st (envir name))) ''R7_super''"
    and "fst (method_call_body h envir nd st i name dc mcall) = Inr r"
  shows "\<exists>tv cl. VECTOR_ELT (fst (Rf_eval h st (envir name))) 0 = Some tv \<and>
    VECTOR_ELT (fst (Rf_eval h st (envir name))) 1 = Some cl"
  using assms
  by (simp add: method_call_body_def Let_def split_beta split: option.splits)

lemma loop_super_at:
  assumes built: "fst (method_call_for h envir nd st i formals dc mcall) = Inr (dc', mcall')"
    and dist: "distinct (map envir formals)"
    and k: "k < length formals" "i + k < nd" "i + k < length dc"
    and supplied: "PRCODE st (envir (formals ! k)) \<noteq> R_MissingArg"
    and shim: "Rf_inherits (fst (Rf_eval h st (envir (formals ! k)))) ''R7_super''"
  shows "\<exists>tv cl.
    VECTOR_ELT (fst (Rf_eval h st (envir (formals ! k)))) 0 = Some tv \<and>
    VECTOR_ELT (fst (Rf_eval h st (envir (formals ! k)))) 1 = Some cl \<and>
    dc' ! (i + k) = cl \<and> mcall' ! (length mcall + k) = Promise (envir (formals ! k)) \<and>
    PRVALUE (snd (method_call_for h envir nd st i formals dc mcall)) (envir (formals ! k)) = tv"
proof -
  let ?a = "envir (formals ! k)"
  from loop_at [OF built dist k(1)] obtain stk dck mck dck' mck' where
    at: "promises stk ?a = promises st ?a" "length dck = length dc" "length mck = length mcall + k"
      "fst (method_call_body h envir nd stk (i + k) (formals ! k) dck mck) = Inr (dck', mck')"
      "dc' ! (i + k) = dck' ! (i + k)"
      "mcall' ! (length mcall + k) = mck' ! (length mcall + k)"
      "promises (snd (method_call_for h envir nd st i formals dc mcall)) ?a =
         promises (snd (method_call_body h envir nd stk (i + k) (formals ! k) dck mck)) ?a"
    by blast
  have v: "fst (Rf_eval h stk ?a) = fst (Rf_eval h st ?a)"
    by (rule Rf_eval_value_cong [OF at(1)])
  have code: "PRCODE stk ?a \<noteq> R_MissingArg"
    using supplied at(1) by (simp add: PRCODE_def)
  from body_super_Inr [where envir = envir and name = "formals ! k" and st = stk and h = h,
      OF k(2) code _ at(4)] shim
  obtain tv cl where elts: "VECTOR_ELT (fst (Rf_eval h st ?a)) 0 = Some tv"
      "VECTOR_ELT (fst (Rf_eval h st ?a)) 1 = Some cl"
    by (auto simp: v)
  have body: "method_call_body h envir nd stk (i + k) (formals ! k) dck mck =
      (Inr (dck[i + k := cl], mck @ [Promise ?a]), SET_PRVALUE (snd (Rf_eval h stk ?a)) ?a tv)"
    using k(2) code shim elts
    by (intro body_super [where envir = envir and name = "formals ! k" and st = stk and h = h])
      (simp_all add: v)
  from at body k(3) have "dc' ! (i + k) = cl \<and> mcall' ! (length mcall + k) = Promise ?a \<and>
    PRVALUE (snd (method_call_for h envir nd st i formals dc mcall)) ?a = tv"
    by (auto simp: PRVALUE_def nth_append SET_PRVALUE_def)
  with elts show ?thesis by blast
qed

lemma loop_ordinary_at:
  assumes built: "fst (method_call_for h envir nd st i formals dc mcall) = Inr (dc', mcall')"
    and dist: "distinct (map envir formals)"
    and k: "k < length formals" "i + k < nd" "i + k < length dc"
    and supplied: "PRCODE st (envir (formals ! k)) \<noteq> R_MissingArg"
    and plain: "\<not> Rf_inherits (fst (Rf_eval h st (envir (formals ! k)))) ''R7_super''"
  shows "dc' ! (i + k) = Str (obj_dispatch h (fst (Rf_eval h st (envir (formals ! k))))) \<and>
    mcall' ! (length mcall + k) = Promise (envir (formals ! k)) \<and>
    PRVALUE (snd (method_call_for h envir nd st i formals dc mcall)) (envir (formals ! k)) =
      fst (Rf_eval h st (envir (formals ! k)))"
proof -
  let ?a = "envir (formals ! k)"
  from loop_at [OF built dist k(1)] obtain stk dck mck dck' mck' where
    at: "promises stk ?a = promises st ?a" "length dck = length dc" "length mck = length mcall + k"
      "fst (method_call_body h envir nd stk (i + k) (formals ! k) dck mck) = Inr (dck', mck')"
      "dc' ! (i + k) = dck' ! (i + k)"
      "mcall' ! (length mcall + k) = mck' ! (length mcall + k)"
      "promises (snd (method_call_for h envir nd st i formals dc mcall)) ?a =
         promises (snd (method_call_body h envir nd stk (i + k) (formals ! k) dck mck)) ?a"
    by blast
  have v: "fst (Rf_eval h stk ?a) = fst (Rf_eval h st ?a)"
    by (rule Rf_eval_value_cong [OF at(1)])
  have code: "PRCODE stk ?a \<noteq> R_MissingArg"
    using supplied at(1) by (simp add: PRCODE_def)
  have body: "method_call_body h envir nd stk (i + k) (formals ! k) dck mck =
     (Inr (dck[i + k := Str (obj_dispatch h (fst (Rf_eval h stk ?a)))], mck @ [Promise ?a]),
      snd (R7_obj_dispatch h (SET_PRVALUE (snd (Rf_eval h stk ?a)) ?a (fst (Rf_eval h stk ?a)))
        (fst (Rf_eval h stk ?a))))"
    using k(2) code plain
    by (intro body_ordinary [where envir = envir and name = "formals ! k" and st = stk and h = h])
      (simp_all add: v)
  have "PRVALUE (snd (R7_obj_dispatch h (SET_PRVALUE (snd (Rf_eval h stk ?a)) ?a (fst (Rf_eval h stk ?a)))
        (fst (Rf_eval h stk ?a)))) ?a = fst (Rf_eval h stk ?a)"
    by (simp add: PRVALUE_def SET_PRVALUE_def)
  with at body k(3) v show ?thesis
    by (auto simp: PRVALUE_def nth_append)
qed

lemma loop_missing_at:
  assumes built: "fst (method_call_for h envir nd st i formals dc mcall) = Inr (dc', mcall')"
    and k: "k < length formals" "i + k < nd" "i + k < length dc"
    and missing: "PRCODE st (envir (formals ! k)) = R_MissingArg"
  shows "dc' ! (i + k) = Str [''MISSING''] \<and> mcall' ! (length mcall + k) = Symbol (formals ! k)"
  using assms
proof (induction formals arbitrary: st i dc mcall k)
  case Nil
  then show ?case by simp
next
  case (Cons name formals)
  let ?st1 = "snd (method_call_body h envir nd st i name dc mcall)"
  from Cons.prems(1) obtain dc1 mc1 where
    body: "fst (method_call_body h envir nd st i name dc mcall) = Inr (dc1, mc1)" and
    loop: "method_call_for h envir nd st i (name # formals) dc mcall =
       method_call_for h envir nd ?st1 (i + 1) formals dc1 mc1"
    by (rule loop_Cons_Inr)
  from body_result [OF body] obtain arg where
    b: "length dc1 = length dc" "mc1 = mcall @ [arg]"
    by auto
  have rest: "fst (method_call_for h envir nd ?st1 (i + 1) formals dc1 mc1) = Inr (dc', mcall')"
    using Cons.prems(1) loop by simp
  show ?case
  proof (cases k)
    case 0
    with Cons.prems have "method_call_body h envir nd st i name dc mcall =
        (Inr (dc[i := Str [''MISSING'']], mcall @ [Symbol name]), st)"
      by (intro body_missing) simp_all
    with body have "dc1 = dc[i := Str [''MISSING'']]" "mc1 = mcall @ [Symbol name]"
      by simp_all
    with loop_result [OF rest] Cons.prems 0 show ?thesis
      by simp
  next
    case (Suc k')
    have "PRCODE ?st1 (envir (formals ! k')) = R_MissingArg"
      using Cons.prems(5) Suc by (simp add: PRCODE_def body_prcode)
    from Cons.IH [OF rest _ _ _ this] Cons.prems Suc b show ?thesis
      by simp
  qed
qed

lemma loop_non_dispatch_at:
  assumes built: "fst (method_call_for h envir nd st i formals dc mcall) = Inr (dc', mcall')"
    and dist: "distinct (map envir formals)"
    and k: "k < length formals" "nd \<le> i + k"
  shows "mcall' ! (length mcall + k) = Tagged (formals ! k) (formals ! k) \<and>
    promises (snd (method_call_for h envir nd st i formals dc mcall)) (envir (formals ! k)) =
      promises st (envir (formals ! k))"
proof -
  let ?a = "envir (formals ! k)"
  from loop_at [OF built dist k(1)] obtain stk dck mck dck' mck' where
    at: "promises stk ?a = promises st ?a" "length dck = length dc" "length mck = length mcall + k"
      "fst (method_call_body h envir nd stk (i + k) (formals ! k) dck mck) = Inr (dck', mck')"
      "dc' ! (i + k) = dck' ! (i + k)"
      "mcall' ! (length mcall + k) = mck' ! (length mcall + k)"
      "promises (snd (method_call_for h envir nd st i formals dc mcall)) ?a =
         promises (snd (method_call_body h envir nd stk (i + k) (formals ! k) dck mck)) ?a"
    by blast
  have "method_call_body h envir nd stk (i + k) (formals ! k) dck mck =
      (Inr (dck, mck @ [Tagged (formals ! k) (formals ! k)]), stk)"
    using k(2) by (intro body_non_dispatch) simp
  with at show ?thesis
    by (auto simp: nth_append)
qed

lemma loop_evaluated_supplied:
  "\<exists>es. evaluated (snd (method_call_for h envir nd st i formals dc mcall)) = evaluated st @ es \<and>
        (\<forall>a \<in> set es. PRCODE st a \<noteq> R_MissingArg)"
proof (induction formals arbitrary: st i dc mcall)
  case Nil
  show ?case by simp
next
  case (Cons name formals)
  let ?st1 = "snd (method_call_body h envir nd st i name dc mcall)"
  from Cons.IH [of ?st1] have
    ih: "\<And>i dc mcall. \<exists>es. evaluated (snd (method_call_for h envir nd ?st1 i formals dc mcall)) =
        evaluated ?st1 @ es \<and> (\<forall>a \<in> set es. PRCODE st a \<noteq> R_MissingArg)"
    by (simp add: PRCODE_def body_prcode)
  show ?case
  proof (cases "method_call_body h envir nd st i name dc mcall")
    case (Pair r st1)
    then have st1: "st1 = ?st1" by simp
    show ?thesis
    proof (cases r)
      case (Inl msg)
      with Pair show ?thesis
        using body_evaluated [of h envir nd st i name dc mcall]
        by (auto split: if_splits)
    next
      case (Inr p)
      obtain dc1 mc1 where p: "p = (dc1, mc1)" by (cases p)
      from ih [of "i + 1" dc1 mc1] obtain es where
        es: "evaluated (snd (method_call_for h envir nd ?st1 (i + 1) formals dc1 mc1)) =
          evaluated ?st1 @ es" "\<forall>a \<in> set es. PRCODE st a \<noteq> R_MissingArg"
        by blast
      show ?thesis
        using Pair Inr p es body_evaluated [of h envir nd st i name dc mcall]
        by (auto split: if_splits)
    qed
  qed
qed

lemma signature_promises:
  "PRCODE (st\<lparr>symtab := syms\<rparr>) a = PRCODE st a"
  "PRVALUE (st\<lparr>symtab := syms\<rparr>) a = PRVALUE st a"
  "fst (Rf_eval h (st\<lparr>symtab := syms\<rparr>) a) = fst (Rf_eval h st a)"
  by (simp_all add: PRCODE_def PRVALUE_def Rf_eval_simps)

text \<open>The builder completes exactly when every shim is a list of two elements or more.\<close>

lemma body_completes:
  assumes "i < nd \<Longrightarrow>
      PRCODE st (envir name) = R_MissingArg \<or>
      \<not> Rf_inherits (fst (Rf_eval h st (envir name))) ''R7_super'' \<or>
      (VECTOR_ELT (fst (Rf_eval h st (envir name))) 0 \<noteq> None \<and>
       VECTOR_ELT (fst (Rf_eval h st (envir name))) 1 \<noteq> None)"
  shows "\<exists>r. fst (method_call_body h envir nd st i name dc mcall) = Inr r"
proof (cases "i < nd")
  case False
  then show ?thesis by (simp add: body_non_dispatch)
next
  case True
  with assms show ?thesis
    by (auto simp: method_call_body_def Let_def split_beta split: option.splits)
qed

lemma loop_completes:
  assumes "distinct (map envir formals)"
    and "list_all
       (\<lambda>name. PRCODE st (envir name) = R_MissingArg \<or>
          \<not> Rf_inherits (fst (Rf_eval h st (envir name))) ''R7_super'' \<or>
          (VECTOR_ELT (fst (Rf_eval h st (envir name))) 0 \<noteq> None \<and>
           VECTOR_ELT (fst (Rf_eval h st (envir name))) 1 \<noteq> None))
       (take (nd - i) formals)"
  shows "\<exists>r. fst (method_call_for h envir nd st i formals dc mcall) = Inr r"
  using assms
proof (induction formals arbitrary: st i dc mcall)
  case Nil
  show ?case by simp
next
  case (Cons name formals)
  let ?P = "\<lambda>st name. PRCODE st (envir name) = R_MissingArg \<or>
          \<not> Rf_inherits (fst (Rf_eval h st (envir name))) ''R7_super'' \<or>
          (VECTOR_ELT (fst (Rf_eval h st (envir name))) 0 \<noteq> None \<and>
           VECTOR_ELT (fst (Rf_eval h st (envir name))) 1 \<noteq> None)"
  let ?st1 = "snd (method_call_body h envir nd st i name dc mcall)"
  have split: "take (nd - i) (name # formals) = name # take (nd - (i + 1)) formals" if "i < nd"
  proof -
    from that have "nd - i = Suc (nd - (i + 1))" by arith
    then show ?thesis by simp
  qed
  have head: "i < nd \<Longrightarrow> ?P st name"
    using Cons.prems(2) split by simp
  from body_completes [of i nd st envir name h dc mcall] head
  obtain dc1 mc1 where body: "fst (method_call_body h envir nd st i name dc mcall) = Inr (dc1, mc1)"
    by auto
  from Cons.prems(1) have dist: "distinct (map envir formals)" "envir name \<notin> envir ` set formals"
    by auto
  have rest: "list_all (?P ?st1) (take (nd - (i + 1)) formals)"
  proof (cases "i < nd")
    case False
    then show ?thesis by simp
  next
    case True
    with Cons.prems(2) split have all: "list_all (?P st) (take (nd - (i + 1)) formals)"
      by simp
    have "?P ?st1 n = ?P st n" if "n \<in> set (take (nd - (i + 1)) formals)" for n
    proof -
      from that have "n \<in> set formals" by (rule in_set_takeD)
      with dist(2) have "envir n \<noteq> envir name" by (metis image_eqI)
      then have p: "promises ?st1 (envir n) = promises st (envir n)"
        by (rule body_other_promise)
      then have "fst (Rf_eval h ?st1 (envir n)) = fst (Rf_eval h st (envir n))"
        by (rule Rf_eval_value_cong)
      with p show ?thesis by (simp add: PRCODE_def)
    qed
    with all show ?thesis
      by (simp add: list_all_iff)
  qed
  from Cons.IH [OF dist(1) rest, of dc1 mc1] body show ?case
    by (cases "method_call_body h envir nd st i name dc mcall") auto
qed

lemma signature_completes:
  assumes "distinct (map envir (FORMALS generic))" and "shims_are_lists h st generic envir"
  shows "\<exists>dc mcall. fst (method_call_signature h st generic envir) = Inr (dc, mcall)"
proof -
  let ?nd = "Rf_xlength st (Rf_getAttrib generic ''dispatch_args'')"
  let ?st1 = "st\<lparr>symtab := List.insert ''dispatch_args'' (symtab st)\<rparr>"
  have "list_all
       (\<lambda>name. PRCODE ?st1 (envir name) = R_MissingArg \<or>
          \<not> Rf_inherits (fst (Rf_eval h ?st1 (envir name))) ''R7_super'' \<or>
          (VECTOR_ELT (fst (Rf_eval h ?st1 (envir name))) 0 \<noteq> None \<and>
           VECTOR_ELT (fst (Rf_eval h ?st1 (envir name))) 1 \<noteq> None))
       (take (?nd - 0) (FORMALS generic))"
    using assms(2) by (simp add: shims_are_lists_def signature_promises)
  from loop_completes [OF assms(1) this, of "replicate ?nd R_NilValue" "[]"]
  show ?thesis
    by (auto simp: signature_unfold)
qed

text \<open>Lookup, and with it the whole call, changes no promise and evaluates nothing.\<close>

lemma method_call_state:
  assumes "fst (method_call_signature h st generic envir) = Inr (dc, mcall)"
  shows "promises (snd (method_call' h st call generic envir)) =
           promises (snd (method_call_signature h st generic envir))"
    and "evaluated (snd (method_call' h st call generic envir)) =
           evaluated (snd (method_call_signature h st generic envir))"
    and "fst (method_call' h st call generic envir) =
           (case fst (method' (snd (method_call_signature h st generic envir)) generic
                        (map class_names dc) (Some True)) of
              Returns m \<Rightarrow> Evaluates m mcall
            | other \<Rightarrow> other)"
proof -
  let ?sig = "method_call_signature h st generic envir"
  let ?look = "method' (snd ?sig) generic (map class_names dc) (Some True)"
  have call: "method_call' h st call generic envir =
      (case ?look of (Returns m, st3) \<Rightarrow> (Evaluates m mcall, st3) | (other, st3) \<Rightarrow> (other, st3))"
    using assms by (rule method_call_unfold)
  have snd: "snd (method_call' h st call generic envir) = snd ?look"
    unfolding call by (cases ?look) (auto split: outcome.splits)
  from method_state [of "snd ?sig" generic "map class_names dc" "Some True"]
  show "promises (snd (method_call' h st call generic envir)) = promises (snd ?sig)"
    and "evaluated (snd (method_call' h st call generic envir)) = evaluated (snd ?sig)"
    by (simp_all add: snd)
  show "fst (method_call' h st call generic envir) =
      (case fst ?look of Returns m \<Rightarrow> Evaluates m mcall | other \<Rightarrow> other)"
    unfolding call by (cases ?look) (auto split: outcome.splits)
qed

text \<open>An entry past the formals is as the loop found it.\<close>

lemma loop_beyond:
  "fst (method_call_for h envir nd st i formals dc mcall) = Inr (dc', mcall') \<Longrightarrow>
   i + length formals \<le> j \<Longrightarrow> dc' ! j = dc ! j"
proof (induction formals arbitrary: st i dc mcall)
  case Nil
  then show ?case by simp
next
  case (Cons name formals)
  from Cons.prems(1) obtain dc1 mc1 where
    body: "fst (method_call_body h envir nd st i name dc mcall) = Inr (dc1, mc1)" and
    loop: "method_call_for h envir nd st i (name # formals) dc mcall =
       method_call_for h envir nd (snd (method_call_body h envir nd st i name dc mcall)) (i + 1)
         formals dc1 mc1"
    by (rule loop_Cons_Inr)
  from body_result [OF body] have b: "\<forall>j. j \<noteq> i \<longrightarrow> dc1 ! j = dc ! j"
    by auto
  from Cons.prems(2) have j: "(i + 1) + length formals \<le> j" "j \<noteq> i"
    by simp_all
  from Cons.prems(1) loop
  have "fst (method_call_for h envir nd (snd (method_call_body h envir nd st i name dc mcall)) (i + 1)
         formals dc1 mc1) = Inr (dc', mcall')"
    by simp
  from Cons.IH [OF this j(1)] b j(2) show ?case
    by simp
qed

text \<open>
  With shims that store class vectors which can be read, every entry of the signature
  built can be read.
\<close>

lemma signature_reads_as_names:
  assumes built: "fst (method_call_signature h st generic envir) = Inr (dc, mcall)"
    and dist: "distinct (map envir (FORMALS generic))"
    and names: "shim_classes_are_names h st generic envir"
  shows "list_all (reads_as_names st) dc"
proof -
  let ?nd = "Rf_xlength st (Rf_getAttrib generic ''dispatch_args'')"
  let ?st1 = "st\<lparr>symtab := List.insert ''dispatch_args'' (symtab st)\<rparr>"
  have loop: "fst (method_call_for h envir ?nd ?st1 0 (FORMALS generic) (replicate ?nd R_NilValue) []) =
      Inr (dc, mcall)"
    using built by (simp add: signature_unfold)
  from loop_result [OF loop] have len: "length dc = ?nd"
    by simp
  have "reads_as_names st (dc ! k)" if k: "k < ?nd" for k
  proof (cases "k < length (FORMALS generic)")
    case False
    with loop_beyond [OF loop, of k] k have "dc ! k = R_NilValue"
      by simp
    then show ?thesis by simp
  next
    case True
    let ?a = "envir (FORMALS generic ! k)"
    from True k have "FORMALS generic ! k \<in> set (take ?nd (FORMALS generic))"
      by (metis in_set_conv_nth length_take min_less_iff_conj nth_take)
    with names have pre: "PRCODE st ?a = R_MissingArg \<or>
        \<not> Rf_inherits (fst (Rf_eval h st ?a)) ''R7_super'' \<or>
        (case VECTOR_ELT (fst (Rf_eval h st ?a)) 1 of
           Some cl \<Rightarrow> reads_as_names st cl | None \<Rightarrow> False)"
      by (simp add: shim_classes_are_names_def list_all_iff)
    show ?thesis
    proof (cases "PRCODE st ?a = R_MissingArg")
      case True
      with loop_missing_at [OF loop \<open>k < length (FORMALS generic)\<close>] k show ?thesis
        by (simp add: signature_promises)
    next
      case supplied: False
      show ?thesis
      proof (cases "Rf_inherits (fst (Rf_eval h st ?a)) ''R7_super''")
        case False
        with loop_ordinary_at [OF loop dist \<open>k < length (FORMALS generic)\<close>] k supplied show ?thesis
          by (simp add: signature_promises)
      next
        case True
        with loop_super_at [OF loop dist \<open>k < length (FORMALS generic)\<close>] k supplied
        obtain cl where "VECTOR_ELT (fst (Rf_eval h st ?a)) 1 = Some cl" "dc ! k = cl"
          by (auto simp: signature_promises)
        with pre supplied True show ?thesis
          by simp
      qed
    qed
  qed
  with len show ?thesis
    by (simp add: list_all_length)
qed

text \<open>Resolution at a depth whose signature entry is a single class.\<close>

lemma method_rec_one_class:
  assumes "i < length sg" and "sg ! i = [c]"
  shows "fst (method_rec st table sg i) =
     (case probe (frames st) table sg i c of
        Some m \<Rightarrow> m
      | None \<Rightarrow> (case probe (frames st) table sg i ''ANY'' of Some m \<Rightarrow> m | None \<Rightarrow> R_NilValue))"
  using assms
  by (simp add: method_rec_resolve(1) resolve.simps [of "frames st" table sg i] probe_def
      split: option.splits)

section \<open>The resolver follows the specification's rule\<close>

text \<open>
  C1. For every method table and every signature, \<open>method_rec\<close> started at depth 0
  returns exactly what the specification's recursive rule selects: at each depth the
  classes of the signature entry are probed in order, child nodes are searched and child
  methods accepted, the \<^verbatim>\<open>ANY\<close> key is probed only after every class of that depth has
  failed, and \<^verbatim>\<open>R_NilValue\<close> (absent) is returned if nothing is found.
\<close>

theorem method_rec_is_resolve:
  "fst (method_rec st table signature 0) =
     (case resolve (frames st) table signature 0 of Some m \<Rightarrow> m | None \<Rightarrow> R_NilValue)"
  by (rule method_rec_resolve(1))

theorem method_rec_is_resolve_witness:
  "fst (method_rec st0 0 [[''dog'', ''animal''], [''bird'', ''animal'']] 0) = m2"
  using method_rec_is_resolve [of st0 0 "[[''dog'', ''animal''], [''bird'', ''animal'']]"]
  by (simp add: resolve.simps lookup_def st0_def speak_frames_def m1_def m2_def m3_def)

section \<open>Methods at a non-leaf depth\<close>

text \<open>
  C2 as stated says that a method value under a class key at a depth \<open>i < D - 1\<close> is
  ignored. It is not: with \<open>D = 2\<close>, the table of environment 4 holds \<open>m1\<close> under
  \<^verbatim>\<open>dog\<close> at depth 0, and resolution returns it, while the same signature on an empty
  table resolves to nothing.
\<close>

theorem shallow_method_counterexample:
  "length [[''dog''], [''cat'']] = 2 \<and> (0::nat) < 2 - 1 \<and>
   Rf_findVarInFrame st0 4 ''dog'' = m1 \<and> TYPEOF m1 = CLOSXP \<and>
   fst (method_rec st0 4 [[''dog''], [''cat'']] 0) = m1 \<and>
   fst (method_rec st0 5 [[''dog''], [''cat'']] 0) = R_NilValue"
  by (simp add: method_rec.simps method_rec_for.simps Rf_findVarInFrame_def Rf_install_def
      ANY_sym_def Let_def st0_def speak_frames_def m1_def)

text \<open>
  C2, amended. The resolver makes no depth check: at any depth below the length of the
  signature, a closure under the first bound key among the classes of that depth (every
  class before it is unbound in the node) is returned, however many signature entries
  remain. Only once the iterator has reached the length of the signature does the
  resolver return \<^verbatim>\<open>R_NilValue\<close> without probing.
\<close>

theorem method_rec_no_depth_check:
  "(itr < length sg \<and> sg ! itr = pre @ c # post \<and>
     (\<forall>k \<in> set pre. Rf_findVarInFrame st table k = R_UnboundValue) \<and>
     TYPEOF (Rf_findVarInFrame st table c) = CLOSXP
    \<longrightarrow> fst (method_rec st table sg itr) = Rf_findVarInFrame st table c) \<and>
   (length sg \<le> itr \<longrightarrow> method_rec st table sg itr = (R_NilValue, st))"
proof (intro conjI impI)
  assume "length sg \<le> itr"
  then show "method_rec st table sg itr = (R_NilValue, st)"
    by (rule method_rec_past_end)
next
  assume "itr < length sg \<and> sg ! itr = pre @ c # post \<and>
     (\<forall>k \<in> set pre. Rf_findVarInFrame st table k = R_UnboundValue) \<and>
     TYPEOF (Rf_findVarInFrame st table c) = CLOSXP"
  then show "fst (method_rec st table sg itr) = Rf_findVarInFrame st table c"
    by (intro method_rec_first_bound_key [where pre = pre and post = post]) simp_all
qed

theorem method_rec_no_depth_check_witness:
  "fst (method_rec st0 4 [[''poodle'', ''dog''], [''cat'']] 0) = m1 \<and>
   method_rec st0 4 [[''poodle'', ''dog''], [''cat'']] 2 = (R_NilValue, st0)"
  using method_rec_no_depth_check [of 0 "[[''poodle'', ''dog''], [''cat'']]" "[''poodle'']" "''dog''" "[]" st0 4]
    method_rec_no_depth_check [of 2 "[[''poodle'', ''dog''], [''cat'']]" "[]" "''dog''" "[]" st0 4]
  by (simp add: Rf_findVarInFrame_def st0_def speak_frames_def m1_def)

section \<open>The error flag of method lookup\<close>

text \<open>
  C3. For a generic (an object inheriting from \<^verbatim>\<open>R7_generic\<close> whose \<^verbatim>\<open>methods\<close>
  attribute is an environment) and any signature: with \<^verbatim>\<open>error = TRUE\<close> lookup returns
  the method that resolution finds, and when resolution yields \<^verbatim>\<open>R_NilValue\<close> it calls
  the collaborator \<^verbatim>\<open>method_lookup_error\<close> with the generic's name, its dispatch
  arguments and the signature, and does not return; with \<^verbatim>\<open>error = FALSE\<close> it returns
  what resolution yields, \<^verbatim>\<open>R_NilValue\<close> included.
\<close>

theorem method_error_flag:
  "Rf_inherits generic ''R7_generic'' \<Longrightarrow>
   Rf_getAttrib generic ''methods'' = Env table \<Longrightarrow>
   method_rec (snd (Rf_install st ''methods'')) table sg 0 = (m, st2) \<Longrightarrow>
   (m \<noteq> R_NilValue \<longrightarrow> method' st generic sg (Some True) = (Returns m, st2)) \<and>
   (m = R_NilValue \<longrightarrow>
      fst (method' st generic sg (Some True)) =
        MethodLookupError (Rf_getAttrib generic ''name'')
          (Rf_getAttrib generic ''dispatch_args'') sg) \<and>
   method' st generic sg (Some False) = (Returns m, st2)"
proof -
  assume a: "Rf_inherits generic ''R7_generic''" "Rf_getAttrib generic ''methods'' = Env table"
    "method_rec (snd (Rf_install st ''methods'')) table sg 0 = (m, st2)"
  show ?thesis
    unfolding method_on_generic [OF a]
    by (simp add: R7_method_lookup_error_outcome)
qed

theorem method_error_flag_witness:
  "fst (method' st0 bark [[''dog'']] (Some True)) = Returns m1 \<and>
   fst (method' st0 bark [[''cat'']] (Some True)) =
     MethodLookupError (Str [''bark'']) (Str [''x'']) [[''cat'']] \<and>
   fst (method' st0 bark [[''cat'']] (Some False)) = Returns R_NilValue"
proof -
  have gen: "Rf_inherits bark ''R7_generic''"
    by (simp add: Rf_inherits_def bark_def)
  have tab: "Rf_getAttrib bark ''methods'' = Env 4"
    by (simp add: Rf_getAttrib_def bark_def)
  have dog: "fst (method_rec (snd (Rf_install st0 ''methods'')) 4 [[''dog'']] 0) = m1"
    by code_simp
  have cat: "fst (method_rec (snd (Rf_install st0 ''methods'')) 4 [[''cat'']] 0) = R_NilValue"
    by code_simp
  have nm: "Rf_getAttrib bark ''name'' = Str [''bark'']"
     "Rf_getAttrib bark ''dispatch_args'' = Str [''x'']"
    by (simp_all add: Rf_getAttrib_def bark_def)
  have m1: "m1 \<noteq> R_NilValue" by (simp add: m1_def)
  show ?thesis
    using method_error_flag [OF gen tab prod.collapse [symmetric], of st0 "[[''dog'']]"]
      method_error_flag [OF gen tab prod.collapse [symmetric], of st0 "[[''cat'']]"]
    by (simp add: dog cat nm m1)
qed

section \<open>Super-shims in a dispatch position\<close>

text \<open>
  C4 as stated, in its consequence, on the table of \<^verbatim>\<open>walk\<close>. The call
  \<^verbatim>\<open>walk(ann, fido)\<close> invokes \<open>m_dog\<close>, the method registered for the class \<^verbatim>\<open>dog\<close> of its
  second argument, whose class list is \<^verbatim>\<open>puppy\<close>, \<^verbatim>\<open>dog\<close>, \<^verbatim>\<open>animal\<close>. The super call of
  that method, with the super of \<open>fido\<close> relative to \<^verbatim>\<open>dog\<close> in the second position,
  invokes \<open>m_animal\<close>. Lookup with \<^verbatim>\<open>dog\<close> absent from that class list, every other
  class kept, finds \<open>m_puppy\<close>, another method: the super call does not re-dispatch as
  if the chosen class were absent from the argument's class list.
\<close>

theorem super_call_counterexample:
  "fst (method_call' h_walk st_walk R_NilValue walk env_walk) =
     Evaluates m_dog [Promise 20, Promise 21] \<and>
   obj_dispatch h_walk fido = [''puppy'', ''dog'', ''animal''] \<and>
   fst (Rf_eval h_walk st_walk (env_walk_super ''y'')) = R7_super (obj_dispatch h_walk) fido ''dog'' \<and>
   fst (method_call' h_walk st_walk R_NilValue walk env_walk_super) =
     Evaluates m_animal [Promise 20, Promise 22] \<and>
   fst (method' st_walk walk [[''person''], remove1 ''dog'' (obj_dispatch h_walk fido)] (Some True)) =
     Returns m_puppy \<and>
   m_puppy \<noteq> m_animal"
  by code_simp

text \<open>
  C4, amended. In a dispatch call where the frame binds the formals to different
  promises and every shim among the supplied dispatch arguments is a list of two
  elements or more, let the argument at dispatch position \<open>i\<close> be supplied and evaluate
  to a value inheriting from \<^verbatim>\<open>R7_super\<close> with first element \<open>true_value\<close> and second
  element \<open>cl\<close>. Then the signature builder completes; it sets entry \<open>i\<close> of the
  dispatch classes to the stored \<open>cl\<close>, whatever it is (the collaborator
  \<open>obj_dispatch\<close> is not asked); after the whole call the value slot of the promise
  holds \<open>true_value\<close>; that promise is argument \<open>i\<close> of the call; every other supplied
  dispatch argument that is no shim keeps the classes that \<open>obj_dispatch\<close> gives its
  value. When the second element of every shim among the supplied dispatch arguments
  can be read as class names (it is a character vector, or has length 0), so can every
  entry of the dispatch classes, and the outcome of the call is the one of lookup on
  this signature: the method found is invoked on the arguments built, a lookup that
  fails fails the call. For a shim built as the specification has it, the super of \<open>value\<close> relative to \<open>chosen\<close>,
  the true value is \<open>value\<close> and the call is dispatched at position \<open>i\<close> on the classes
  of \<open>value\<close> that come after \<open>chosen\<close>: the chosen class and every class before it are
  skipped. This is the class list of \<open>value\<close> with \<open>chosen\<close> absent when \<open>chosen\<close> is
  the first class of that list.
\<close>

theorem super_shim_signature:
  assumes dist: "distinct (map envir (FORMALS generic))"
    and lists: "shims_are_lists h st generic envir"
    and i: "i < length (FORMALS generic)"
      "i < Rf_xlength st (Rf_getAttrib generic ''dispatch_args'')"
    and supplied: "PRCODE st (envir (FORMALS generic ! i)) \<noteq> R_MissingArg"
    and shim: "Rf_inherits (fst (Rf_eval h st (envir (FORMALS generic ! i)))) ''R7_super''"
      "VECTOR_ELT (fst (Rf_eval h st (envir (FORMALS generic ! i)))) 0 = Some true_value"
      "VECTOR_ELT (fst (Rf_eval h st (envir (FORMALS generic ! i)))) 1 = Some cl"
  shows "\<exists>dc mcall.
    fst (method_call_signature h st generic envir) = Inr (dc, mcall) \<and>
    dc ! i = cl \<and>
    PRVALUE (snd (method_call' h st call generic envir)) (envir (FORMALS generic ! i)) = true_value \<and>
    mcall ! i = Promise (envir (FORMALS generic ! i)) \<and>
    (\<forall>j < length (FORMALS generic).
       j < Rf_xlength st (Rf_getAttrib generic ''dispatch_args'') \<longrightarrow>
       PRCODE st (envir (FORMALS generic ! j)) \<noteq> R_MissingArg \<longrightarrow>
       \<not> Rf_inherits (fst (Rf_eval h st (envir (FORMALS generic ! j)))) ''R7_super'' \<longrightarrow>
       dc ! j = Str (obj_dispatch h (fst (Rf_eval h st (envir (FORMALS generic ! j)))))) \<and>
    (shim_classes_are_names h st generic envir \<longrightarrow>
       list_all (reads_as_names st) dc \<and>
       fst (method_call' h st call generic envir) =
         (case fst (method' (snd (method_call_signature h st generic envir)) generic
                      (map class_names dc) (Some True)) of
            Returns m \<Rightarrow> Evaluates m mcall
          | other \<Rightarrow> other)) \<and>
    (\<forall>value chosen.
       fst (Rf_eval h st (envir (FORMALS generic ! i))) = R7_super (obj_dispatch h) value chosen \<longrightarrow>
       true_value = value \<and>
       map class_names dc ! i = tl (dropWhile (\<lambda>c. c \<noteq> chosen) (obj_dispatch h value)) \<and>
       (\<forall>rest. obj_dispatch h value = chosen # rest \<longrightarrow>
          map class_names dc ! i = remove1 chosen (obj_dispatch h value)))"
proof -
  let ?nd = "Rf_xlength st (Rf_getAttrib generic ''dispatch_args'')"
  let ?st1 = "st\<lparr>symtab := List.insert ''dispatch_args'' (symtab st)\<rparr>"
  let ?a = "envir (FORMALS generic ! i)"
  let ?sig = "method_call_signature h st generic envir"
  from signature_completes [OF dist lists] obtain dc mcall where
    built: "fst ?sig = Inr (dc, mcall)"
    by blast
  have loop: "fst (method_call_for h envir ?nd ?st1 0 (FORMALS generic) (replicate ?nd R_NilValue) []) =
      Inr (dc, mcall)"
    using built by (simp add: signature_unfold)
  have sh: "Rf_inherits (fst (Rf_eval h ?st1 ?a)) ''R7_super''"
    using shim(1) by (simp add: signature_promises)
  from loop_super_at [OF loop dist i(1)] i(2) supplied sh
  obtain tv cl' where
    r: "VECTOR_ELT (fst (Rf_eval h ?st1 ?a)) 0 = Some tv"
      "VECTOR_ELT (fst (Rf_eval h ?st1 ?a)) 1 = Some cl'"
      "dc ! i = cl'" "mcall ! i = Promise ?a"
      "PRVALUE (snd (method_call_for h envir ?nd ?st1 0 (FORMALS generic) (replicate ?nd R_NilValue) [])) ?a = tv"
    by (auto simp: signature_promises)
  from r(1,2) shim(2,3) have eq: "tv = true_value" "cl' = cl"
    by (simp_all add: signature_promises)
  have dci: "dc ! i = cl" and arg: "mcall ! i = Promise ?a"
    using r eq by simp_all
  have slot: "PRVALUE (snd (method_call' h st call generic envir)) ?a = true_value"
    using r(5) eq method_call_state(1) [OF built, of call]
    by (simp add: PRVALUE_def signature_unfold)
  have others: "\<forall>j < length (FORMALS generic). j < ?nd \<longrightarrow>
       PRCODE st (envir (FORMALS generic ! j)) \<noteq> R_MissingArg \<longrightarrow>
       \<not> Rf_inherits (fst (Rf_eval h st (envir (FORMALS generic ! j)))) ''R7_super'' \<longrightarrow>
       dc ! j = Str (obj_dispatch h (fst (Rf_eval h st (envir (FORMALS generic ! j)))))"
  proof (intro allI impI)
    fix j
    assume j: "j < length (FORMALS generic)" "j < ?nd"
      "PRCODE st (envir (FORMALS generic ! j)) \<noteq> R_MissingArg"
      "\<not> Rf_inherits (fst (Rf_eval h st (envir (FORMALS generic ! j)))) ''R7_super''"
    from loop_ordinary_at [OF loop dist j(1)] j(2-4)
    show "dc ! j = Str (obj_dispatch h (fst (Rf_eval h st (envir (FORMALS generic ! j)))))"
      by (simp add: signature_promises)
  qed
  have len: "i < length dc"
    using loop_result [OF loop] i(2) by simp
  have built_shim: "\<forall>value chosen.
       fst (Rf_eval h st ?a) = R7_super (obj_dispatch h) value chosen \<longrightarrow>
       true_value = value \<and>
       map class_names dc ! i = tl (dropWhile (\<lambda>c. c \<noteq> chosen) (obj_dispatch h value)) \<and>
       (\<forall>rest. obj_dispatch h value = chosen # rest \<longrightarrow>
          map class_names dc ! i = remove1 chosen (obj_dispatch h value))"
  proof (intro allI impI)
    fix "value" chosen
    assume v: "fst (Rf_eval h st ?a) = R7_super (obj_dispatch h) value chosen"
    with shim(2,3) have tv: "true_value = value"
      and cl: "cl = Str (tl (dropWhile (\<lambda>c. c \<noteq> chosen) (obj_dispatch h value)))"
      by (simp_all add: R7_super_def)
    from cl dci len have tail:
      "map class_names dc ! i = tl (dropWhile (\<lambda>c. c \<noteq> chosen) (obj_dispatch h value))"
      by simp
    have "\<forall>rest. obj_dispatch h value = chosen # rest \<longrightarrow>
          map class_names dc ! i = remove1 chosen (obj_dispatch h value)"
      using tail by auto
    with tv tail show "true_value = value \<and>
       map class_names dc ! i = tl (dropWhile (\<lambda>c. c \<noteq> chosen) (obj_dispatch h value)) \<and>
       (\<forall>rest. obj_dispatch h value = chosen # rest \<longrightarrow>
          map class_names dc ! i = remove1 chosen (obj_dispatch h value))"
      by blast
  qed
  have look: "shim_classes_are_names h st generic envir \<longrightarrow>
       list_all (reads_as_names st) dc \<and>
       fst (method_call' h st call generic envir) =
         (case fst (method' (snd (method_call_signature h st generic envir)) generic
                      (map class_names dc) (Some True)) of
            Returns m \<Rightarrow> Evaluates m mcall
          | other \<Rightarrow> other)"
    using signature_reads_as_names [OF built dist] method_call_state(3) [OF built, of call]
    by blast
  from built dci slot arg others look built_shim
  show ?thesis
    by blast
qed

theorem super_shim_signature_witness:
  "fst (method_call_signature h0 st0 speak env_super) =
     Inr ([Str [''animal''], Str [''cat'', ''animal'']], [Promise 12, Promise 11]) \<and>
   PRVALUE (snd (method_call' h0 st0 R_NilValue speak env_super)) 12 = rex \<and>
   fst (method_call' h0 st0 R_NilValue speak env_super) = Evaluates m3 [Promise 12, Promise 11] \<and>
   obj_dispatch h0 rex = [''dog'', ''animal''] \<and>
   map class_names [Str [''animal''], Str [''cat'', ''animal'']] ! 0 =
     remove1 ''dog'' (obj_dispatch h0 rex) \<and>
   fst (method_call_signature h_bare st0 speak env_bare) =
     Inr ([Vec [] [], Str [''cat'', ''animal'']], [Promise 14, Promise 11]) \<and>
   fst (method_call' h_bare st0 R_NilValue speak env_bare) = Evaluates m3 [Promise 14, Promise 11]"
proof -
  have built: "fst (method_call_signature h0 st0 speak env_super) =
      Inr ([Str [''animal''], Str [''cat'', ''animal'']], [Promise 12, Promise 11])"
    by code_simp
  have dist: "distinct (map env_super (FORMALS speak))"
    and lists: "shims_are_lists h0 st0 speak env_super"
    and names: "shim_classes_are_names h0 st0 speak env_super"
    and i: "0 < length (FORMALS speak)" "0 < Rf_xlength st0 (Rf_getAttrib speak ''dispatch_args'')"
    and supplied: "PRCODE st0 (env_super (FORMALS speak ! 0)) \<noteq> R_MissingArg"
    and shim: "Rf_inherits (fst (Rf_eval h0 st0 (env_super (FORMALS speak ! 0)))) ''R7_super''"
      "VECTOR_ELT (fst (Rf_eval h0 st0 (env_super (FORMALS speak ! 0)))) 0 = Some rex"
      "VECTOR_ELT (fst (Rf_eval h0 st0 (env_super (FORMALS speak ! 0)))) 1 = Some (Str [''animal''])"
    by code_simp+
  have a: "env_super (FORMALS speak ! 0) = 12"
    by code_simp
  have made: "fst (Rf_eval h0 st0 12) = R7_super (obj_dispatch h0) rex ''dog''"
    and od: "obj_dispatch h0 rex = [''dog'', ''animal'']"
    by code_simp+
  have look: "fst (method' (snd (method_call_signature h0 st0 speak env_super)) speak
      [[''animal''], [''cat'', ''animal'']] (Some True)) = Returns m3"
    by code_simp
  from super_shim_signature [OF dist lists i supplied shim, of R_NilValue, unfolded a] names
  obtain dc mcall where
    s: "fst (method_call_signature h0 st0 speak env_super) = Inr (dc, mcall)"
      "PRVALUE (snd (method_call' h0 st0 R_NilValue speak env_super)) 12 = rex"
      "fst (method_call' h0 st0 R_NilValue speak env_super) =
        (case fst (method' (snd (method_call_signature h0 st0 speak env_super)) speak
                     (map class_names dc) (Some True)) of
           Returns m \<Rightarrow> Evaluates m mcall
         | other \<Rightarrow> other)"
      "\<forall>value chosen. fst (Rf_eval h0 st0 12) = R7_super (obj_dispatch h0) value chosen \<longrightarrow>
         (\<forall>rest. obj_dispatch h0 value = chosen # rest \<longrightarrow>
            map class_names dc ! 0 = remove1 chosen (obj_dispatch h0 value))"
    by blast
  from s(1) built have dc: "dc = [Str [''animal''], Str [''cat'', ''animal'']]"
    and mcall: "mcall = [Promise 12, Promise 11]"
    by simp_all
  from s(3) have call: "fst (method_call' h0 st0 R_NilValue speak env_super) =
      Evaluates m3 [Promise 12, Promise 11]"
    by (simp add: dc mcall look)
  from s(4) made od have absent: "map class_names [Str [''animal''], Str [''cat'', ''animal'']] ! 0 =
      remove1 ''dog'' (obj_dispatch h0 rex)"
    unfolding dc by blast
  have bare: "fst (method_call_signature h_bare st0 speak env_bare) =
      Inr ([Vec [] [], Str [''cat'', ''animal'']], [Promise 14, Promise 11])"
    by code_simp
  have bdist: "distinct (map env_bare (FORMALS speak))"
    and blists: "shims_are_lists h_bare st0 speak env_bare"
    and bnames: "shim_classes_are_names h_bare st0 speak env_bare"
    and bsupplied: "PRCODE st0 (env_bare (FORMALS speak ! 0)) \<noteq> R_MissingArg"
    and bshim: "Rf_inherits (fst (Rf_eval h_bare st0 (env_bare (FORMALS speak ! 0)))) ''R7_super''"
      "VECTOR_ELT (fst (Rf_eval h_bare st0 (env_bare (FORMALS speak ! 0)))) 0 = Some rex"
      "VECTOR_ELT (fst (Rf_eval h_bare st0 (env_bare (FORMALS speak ! 0)))) 1 = Some (Vec [] [])"
    by code_simp+
  have blook: "fst (method' (snd (method_call_signature h_bare st0 speak env_bare)) speak
      [[], [''cat'', ''animal'']] (Some True)) = Returns m3"
    by code_simp
  from super_shim_signature [OF bdist blists i bsupplied bshim, of R_NilValue] bnames
  obtain dc' mcall' where
    b: "fst (method_call_signature h_bare st0 speak env_bare) = Inr (dc', mcall')"
      "fst (method_call' h_bare st0 R_NilValue speak env_bare) =
        (case fst (method' (snd (method_call_signature h_bare st0 speak env_bare)) speak
                     (map class_names dc') (Some True)) of
           Returns m \<Rightarrow> Evaluates m mcall'
         | other \<Rightarrow> other)"
    by blast
  from b(1) bare have "dc' = [Vec [] [], Str [''cat'', ''animal'']]" "mcall' = [Promise 14, Promise 11]"
    by simp_all
  with b(2) have bcall: "fst (method_call' h_bare st0 R_NilValue speak env_bare) =
      Evaluates m3 [Promise 14, Promise 11]"
    by (simp add: blook)
  from built s(2) call od absent bare bcall show ?thesis
    by blast
qed

section \<open>Missing dispatch arguments\<close>

text \<open>
  C5. In a dispatch call where the frame binds the formals to different promises and
  every shim among the supplied dispatch arguments is a list of two elements or more,
  let the argument at dispatch position \<open>i\<close> be missing: the expression of its promise
  is the missing marker. Then the signature builder completes; it sets entry \<open>i\<close> of
  the dispatch classes to the single class \<^verbatim>\<open>MISSING\<close>; argument \<open>i\<close> of the call is the
  bare symbol of the formal; after the whole call the promise is as it was and is not
  among the promises evaluated by the call; the method invoked sees that argument as
  not supplied, so its default applies. When the second element of every shim among the
  supplied dispatch arguments can be read as class names (it is a character vector, or
  has length 0), so can every entry of the dispatch classes; the outcome of the call is
  the one of lookup on this signature, the method found being invoked on the arguments
  built; and at depth \<open>i\<close>, in every node of every table, the resolver returns what the
  key \<^verbatim>\<open>MISSING\<close> contributes, else what \<^verbatim>\<open>ANY\<close> contributes, else nothing. That is
  what the resolver returns for the single class \<open>c\<close> of any signature, with \<open>c\<close> in the
  place of \<^verbatim>\<open>MISSING\<close>.
\<close>

theorem missing_argument_signature:
  assumes dist: "distinct (map envir (FORMALS generic))"
    and lists: "shims_are_lists h st generic envir"
    and i: "i < length (FORMALS generic)"
      "i < Rf_xlength st (Rf_getAttrib generic ''dispatch_args'')"
    and missing: "PRCODE st (envir (FORMALS generic ! i)) = R_MissingArg"
  shows "\<exists>dc mcall.
    fst (method_call_signature h st generic envir) = Inr (dc, mcall) \<and>
    dc ! i = Str [''MISSING''] \<and>
    mcall ! i = Symbol (FORMALS generic ! i) \<and>
    promises (snd (method_call' h st call generic envir)) (envir (FORMALS generic ! i)) =
      promises st (envir (FORMALS generic ! i)) \<and>
    (\<exists>es. evaluated (snd (method_call' h st call generic envir)) = evaluated st @ es \<and>
          envir (FORMALS generic ! i) \<notin> set es) \<and>
    method_binding (snd (method_call' h st call generic envir)) envir (mcall ! i) = Default \<and>
    (shim_classes_are_names h st generic envir \<longrightarrow>
       list_all (reads_as_names st) dc \<and>
       fst (method_call' h st call generic envir) =
         (case fst (method' (snd (method_call_signature h st generic envir)) generic
                      (map class_names dc) (Some True)) of
            Returns m \<Rightarrow> Evaluates m mcall
          | other \<Rightarrow> other) \<and>
       (\<forall>st2 table.
          fst (method_rec st2 table (map class_names dc) i) =
            (case probe (frames st2) table (map class_names dc) i ''MISSING'' of
               Some m \<Rightarrow> m
             | None \<Rightarrow>
                 (case probe (frames st2) table (map class_names dc) i ''ANY'' of
                    Some m \<Rightarrow> m | None \<Rightarrow> R_NilValue)))) \<and>
    (\<forall>st2 table sg c. i < length sg \<and> sg ! i = [c] \<longrightarrow>
       fst (method_rec st2 table sg i) =
         (case probe (frames st2) table sg i c of
            Some m \<Rightarrow> m
          | None \<Rightarrow>
              (case probe (frames st2) table sg i ''ANY'' of
                 Some m \<Rightarrow> m | None \<Rightarrow> R_NilValue)))"
proof -
  let ?nd = "Rf_xlength st (Rf_getAttrib generic ''dispatch_args'')"
  let ?st1 = "st\<lparr>symtab := List.insert ''dispatch_args'' (symtab st)\<rparr>"
  let ?a = "envir (FORMALS generic ! i)"
  let ?sig = "method_call_signature h st generic envir"
  let ?fin = "snd (method_call' h st call generic envir)"
  from signature_completes [OF dist lists] obtain dc mcall where
    built: "fst ?sig = Inr (dc, mcall)"
    by blast
  have loop: "fst (method_call_for h envir ?nd ?st1 0 (FORMALS generic) (replicate ?nd R_NilValue) []) =
      Inr (dc, mcall)"
    using built by (simp add: signature_unfold)
  have code: "PRCODE ?st1 ?a = R_MissingArg"
    using missing by (simp add: signature_promises)
  from loop_missing_at [OF loop i(1)] i(2) code
  have dci: "dc ! i = Str [''MISSING'']" and arg: "mcall ! i = Symbol (FORMALS generic ! i)"
    by simp_all
  have prom: "promises ?fin ?a = promises st ?a"
    using loop_missing_promise [OF code] method_call_state(1) [OF built, of call]
    by (simp add: signature_unfold)
  from loop_evaluated_supplied [of h envir ?nd ?st1 0 "FORMALS generic" "replicate ?nd R_NilValue" "[]"]
  obtain es where es: "evaluated (snd ?sig) = evaluated st @ es"
      "\<forall>a \<in> set es. PRCODE st a \<noteq> R_MissingArg"
    by (auto simp: signature_unfold signature_promises)
  with missing method_call_state(2) [OF built, of call]
  have trace: "\<exists>es. evaluated ?fin = evaluated st @ es \<and> ?a \<notin> set es"
    by auto
  have bind: "method_binding ?fin envir (mcall ! i) = Default"
    using prom missing by (simp add: arg forwarded_def PRCODE_def)
  from loop_result [OF loop] i(2) have len: "i < length dc" by simp
  then have entry: "i < length (map class_names dc)" "map class_names dc ! i = [''MISSING'']"
    by (simp_all add: dci)
  have this_key: "\<forall>st2 table.
       fst (method_rec st2 table (map class_names dc) i) =
         (case probe (frames st2) table (map class_names dc) i ''MISSING'' of
            Some m \<Rightarrow> m
          | None \<Rightarrow>
              (case probe (frames st2) table (map class_names dc) i ''ANY'' of
                 Some m \<Rightarrow> m | None \<Rightarrow> R_NilValue))"
    using method_rec_one_class [OF entry] by blast
  have any_key: "\<forall>st2 table sg c. i < length sg \<and> sg ! i = [c] \<longrightarrow>
       fst (method_rec st2 table sg i) =
         (case probe (frames st2) table sg i c of
            Some m \<Rightarrow> m
          | None \<Rightarrow>
              (case probe (frames st2) table sg i ''ANY'' of
                 Some m \<Rightarrow> m | None \<Rightarrow> R_NilValue))"
    using method_rec_one_class by blast
  have look: "shim_classes_are_names h st generic envir \<longrightarrow>
       list_all (reads_as_names st) dc \<and>
       fst (method_call' h st call generic envir) =
         (case fst (method' (snd (method_call_signature h st generic envir)) generic
                      (map class_names dc) (Some True)) of
            Returns m \<Rightarrow> Evaluates m mcall
          | other \<Rightarrow> other)"
    using signature_reads_as_names [OF built dist] method_call_state(3) [OF built, of call]
    by blast
  from built dci arg prom trace bind look this_key any_key
  show ?thesis
    by blast
qed

theorem missing_argument_signature_witness:
  "fst (method_call_signature h0 st0 speak env_missing) =
     Inr ([Str [''dog'', ''animal''], Str [''MISSING'']], [Promise 10, Symbol ''y'']) \<and>
   promises (snd (method_call' h0 st0 R_NilValue speak env_missing)) 13 = promises st0 13 \<and>
   evaluated (snd (method_call' h0 st0 R_NilValue speak env_missing)) = [10] \<and>
   method_binding (snd (method_call' h0 st0 R_NilValue speak env_missing)) env_missing (Symbol ''y'') =
     Default \<and>
   probe (frames st0) 1 [[''dog'', ''animal''], [''MISSING'']] 1 ''MISSING'' = Some m4 \<and>
   fst (method_rec st0 1 [[''dog'', ''animal''], [''MISSING'']] 1) = m4 \<and>
   fst (method_call' h0 st0 R_NilValue speak env_missing) = Evaluates m4 [Promise 10, Symbol ''y''] \<and>
   fst (method_call_signature h_bare st0 speak env_bare_missing) =
     Inr ([Str [''MISSING''], Vec [] []], [Symbol ''x'', Promise 14]) \<and>
   fst (method_call' h_bare st0 R_NilValue speak env_bare_missing) =
     Evaluates m3 [Symbol ''x'', Promise 14]"
proof -
  have built: "fst (method_call_signature h0 st0 speak env_missing) =
      Inr ([Str [''dog'', ''animal''], Str [''MISSING'']], [Promise 10, Symbol ''y''])"
    by code_simp
  have dist: "distinct (map env_missing (FORMALS speak))"
    and lists: "shims_are_lists h0 st0 speak env_missing"
    and names: "shim_classes_are_names h0 st0 speak env_missing"
    and i: "1 < length (FORMALS speak)" "1 < Rf_xlength st0 (Rf_getAttrib speak ''dispatch_args'')"
    and missing: "PRCODE st0 (env_missing (FORMALS speak ! 1)) = R_MissingArg"
    by code_simp+
  have a: "FORMALS speak ! 1 = ''y''" "env_missing ''y'' = 13"
    by code_simp+
  have key: "probe (frames st0) 1 [[''dog'', ''animal''], [''MISSING'']] 1 ''MISSING'' = Some m4"
    by code_simp
  have tr: "evaluated (snd (method_call' h0 st0 R_NilValue speak env_missing)) = [10]"
    by code_simp
  have look: "fst (method' (snd (method_call_signature h0 st0 speak env_missing)) speak
      [[''dog'', ''animal''], [''MISSING'']] (Some True)) = Returns m4"
    by code_simp
  from missing_argument_signature [OF dist lists i missing, of R_NilValue, unfolded a] names
  obtain dc mcall where
    s: "fst (method_call_signature h0 st0 speak env_missing) = Inr (dc, mcall)"
      "mcall ! 1 = Symbol ''y''"
      "promises (snd (method_call' h0 st0 R_NilValue speak env_missing)) 13 = promises st0 13"
      "method_binding (snd (method_call' h0 st0 R_NilValue speak env_missing)) env_missing (mcall ! 1) =
         Default"
      "fst (method_call' h0 st0 R_NilValue speak env_missing) =
        (case fst (method' (snd (method_call_signature h0 st0 speak env_missing)) speak
                     (map class_names dc) (Some True)) of
           Returns m \<Rightarrow> Evaluates m mcall
         | other \<Rightarrow> other)"
      "\<forall>st2 table.
         fst (method_rec st2 table (map class_names dc) 1) =
           (case probe (frames st2) table (map class_names dc) 1 ''MISSING'' of
              Some m \<Rightarrow> m
            | None \<Rightarrow>
                (case probe (frames st2) table (map class_names dc) 1 ''ANY'' of
                   Some m \<Rightarrow> m | None \<Rightarrow> R_NilValue))"
    by blast
  from s(1) built have dc: "dc = [Str [''dog'', ''animal''], Str [''MISSING'']]"
    and mcall: "mcall = [Promise 10, Symbol ''y'']"
    by simp_all
  from s(4) s(2) have bind:
    "method_binding (snd (method_call' h0 st0 R_NilValue speak env_missing)) env_missing (Symbol ''y'') =
       Default"
    by simp
  from s(5) have call: "fst (method_call' h0 st0 R_NilValue speak env_missing) =
      Evaluates m4 [Promise 10, Symbol ''y'']"
    by (simp add: dc mcall look)
  from s(6) [unfolded dc] key
  have rec: "fst (method_rec st0 1 [[''dog'', ''animal''], [''MISSING'']] 1) = m4"
    by simp
  have bare: "fst (method_call_signature h_bare st0 speak env_bare_missing) =
      Inr ([Str [''MISSING''], Vec [] []], [Symbol ''x'', Promise 14])"
    by code_simp
  have bdist: "distinct (map env_bare_missing (FORMALS speak))"
    and blists: "shims_are_lists h_bare st0 speak env_bare_missing"
    and bnames: "shim_classes_are_names h_bare st0 speak env_bare_missing"
    and bi: "0 < length (FORMALS speak)" "0 < Rf_xlength st0 (Rf_getAttrib speak ''dispatch_args'')"
    and bmissing: "PRCODE st0 (env_bare_missing (FORMALS speak ! 0)) = R_MissingArg"
    by code_simp+
  have blook: "fst (method' (snd (method_call_signature h_bare st0 speak env_bare_missing)) speak
      [[''MISSING''], []] (Some True)) = Returns m3"
    by code_simp
  from missing_argument_signature [OF bdist blists bi bmissing, of R_NilValue] bnames
  obtain dc' mcall' where
    b: "fst (method_call_signature h_bare st0 speak env_bare_missing) = Inr (dc', mcall')"
      "fst (method_call' h_bare st0 R_NilValue speak env_bare_missing) =
        (case fst (method' (snd (method_call_signature h_bare st0 speak env_bare_missing)) speak
                     (map class_names dc') (Some True)) of
           Returns m \<Rightarrow> Evaluates m mcall'
         | other \<Rightarrow> other)"
    by blast
  from b(1) bare have "dc' = [Str [''MISSING''], Vec [] []]" "mcall' = [Symbol ''x'', Promise 14]"
    by simp_all
  with b(2) have bcall: "fst (method_call' h_bare st0 R_NilValue speak env_bare_missing) =
      Evaluates m3 [Symbol ''x'', Promise 14]"
    by (simp add: blook)
  from built s(3) tr bind key rec call bare bcall show ?thesis
    by blast
qed

section \<open>Dispatch arguments are forced once\<close>

text \<open>
  C6. In a dispatch call where the frame binds the formals to different promises and
  every shim among the supplied dispatch arguments is a list of two elements or more,
  the signature builder completes, and the promises evaluated by the whole call, in the
  order of evaluation, are the promises of the dispatch formals in formal order, each
  once, less the missing ones and the ones forced before the call. When the second
  element of every shim among the supplied dispatch arguments can be read as class names
  (it is a character vector, or has length 0), so can every entry of the dispatch
  classes, and the outcome of the call is the one of lookup on the signature built: the
  method found is invoked on the arguments built. For every supplied dispatch argument, the value slot of its promise
  holds after the call the evaluated value, or the first element of the shim when the
  value is a shim; the promise itself is the argument of the call; and with a value in
  the slot, the method invoked reads that value and a further evaluation of the promise
  returns it and leaves the store, the trace of evaluations included, as it is. Every
  formal past the dispatch arguments is passed by name with its promise as it was
  before the call, and the method invoked sees it as a forwarded argument of the frame.
\<close>

theorem dispatch_arguments_forced_once:
  assumes dist: "distinct (map envir (FORMALS generic))"
    and lists: "shims_are_lists h st generic envir"
  shows "\<exists>dc mcall.
    fst (method_call_signature h st generic envir) = Inr (dc, mcall) \<and>
    evaluated (snd (method_call' h st call generic envir)) =
      evaluated st @
        filter (\<lambda>a. PRCODE st a \<noteq> R_MissingArg \<and> PRVALUE st a = R_UnboundValue)
          (map envir (take (Rf_xlength st (Rf_getAttrib generic ''dispatch_args'')) (FORMALS generic))) \<and>
    (shim_classes_are_names h st generic envir \<longrightarrow>
       list_all (reads_as_names st) dc \<and>
       fst (method_call' h st call generic envir) =
         (case fst (method' (snd (method_call_signature h st generic envir)) generic
                      (map class_names dc) (Some True)) of
            Returns m \<Rightarrow> Evaluates m mcall
          | other \<Rightarrow> other)) \<and>
    (\<forall>k < length (FORMALS generic).
       k < Rf_xlength st (Rf_getAttrib generic ''dispatch_args'') \<longrightarrow>
       PRCODE st (envir (FORMALS generic ! k)) \<noteq> R_MissingArg \<longrightarrow>
       (if Rf_inherits (fst (Rf_eval h st (envir (FORMALS generic ! k)))) ''R7_super''
        then VECTOR_ELT (fst (Rf_eval h st (envir (FORMALS generic ! k)))) 0 =
               Some (PRVALUE (snd (method_call' h st call generic envir)) (envir (FORMALS generic ! k)))
        else PRVALUE (snd (method_call' h st call generic envir)) (envir (FORMALS generic ! k)) =
               fst (Rf_eval h st (envir (FORMALS generic ! k)))) \<and>
       mcall ! k = Promise (envir (FORMALS generic ! k)) \<and>
       (PRVALUE (snd (method_call' h st call generic envir)) (envir (FORMALS generic ! k)) \<noteq> R_UnboundValue \<longrightarrow>
          method_binding (snd (method_call' h st call generic envir)) envir (mcall ! k) =
            Memoized (PRVALUE (snd (method_call' h st call generic envir)) (envir (FORMALS generic ! k))) \<and>
          Rf_eval h (snd (method_call' h st call generic envir)) (envir (FORMALS generic ! k)) =
            (PRVALUE (snd (method_call' h st call generic envir)) (envir (FORMALS generic ! k)),
             snd (method_call' h st call generic envir)))) \<and>
    (\<forall>k < length (FORMALS generic).
       Rf_xlength st (Rf_getAttrib generic ''dispatch_args'') \<le> k \<longrightarrow>
       mcall ! k = Tagged (FORMALS generic ! k) (FORMALS generic ! k) \<and>
       promises (snd (method_call' h st call generic envir)) (envir (FORMALS generic ! k)) =
         promises st (envir (FORMALS generic ! k)) \<and>
       method_binding (snd (method_call' h st call generic envir)) envir (mcall ! k) =
         forwarded st envir (FORMALS generic ! k))"
proof -
  let ?nd = "Rf_xlength st (Rf_getAttrib generic ''dispatch_args'')"
  let ?st1 = "st\<lparr>symtab := List.insert ''dispatch_args'' (symtab st)\<rparr>"
  let ?sig = "method_call_signature h st generic envir"
  let ?fin = "snd (method_call' h st call generic envir)"
  from signature_completes [OF dist lists] obtain dc mcall where
    built: "fst ?sig = Inr (dc, mcall)"
    by blast
  have loop: "fst (method_call_for h envir ?nd ?st1 0 (FORMALS generic) (replicate ?nd R_NilValue) []) =
      Inr (dc, mcall)"
    using built by (simp add: signature_unfold)
  have sig: "?sig = method_call_for h envir ?nd ?st1 0 (FORMALS generic) (replicate ?nd R_NilValue) []"
    by (rule signature_unfold)
  have fin: "promises ?fin = promises (snd ?sig)" "evaluated ?fin = evaluated (snd ?sig)"
    using method_call_state(1,2) [OF built, of call] by simp_all
  have slot: "PRVALUE ?fin a = PRVALUE (snd ?sig) a" for a
    by (simp add: PRVALUE_def fin)
  have trace: "evaluated ?fin =
      evaluated st @
        filter (\<lambda>a. PRCODE st a \<noteq> R_MissingArg \<and> PRVALUE st a = R_UnboundValue)
          (map envir (take ?nd (FORMALS generic)))"
    using loop_evaluated [OF loop dist] by (simp add: fin sig signature_promises)
  have disp: "\<forall>k < length (FORMALS generic). k < ?nd \<longrightarrow>
       PRCODE st (envir (FORMALS generic ! k)) \<noteq> R_MissingArg \<longrightarrow>
       (if Rf_inherits (fst (Rf_eval h st (envir (FORMALS generic ! k)))) ''R7_super''
        then VECTOR_ELT (fst (Rf_eval h st (envir (FORMALS generic ! k)))) 0 =
               Some (PRVALUE ?fin (envir (FORMALS generic ! k)))
        else PRVALUE ?fin (envir (FORMALS generic ! k)) =
               fst (Rf_eval h st (envir (FORMALS generic ! k)))) \<and>
       mcall ! k = Promise (envir (FORMALS generic ! k)) \<and>
       (PRVALUE ?fin (envir (FORMALS generic ! k)) \<noteq> R_UnboundValue \<longrightarrow>
          method_binding ?fin envir (mcall ! k) = Memoized (PRVALUE ?fin (envir (FORMALS generic ! k))) \<and>
          Rf_eval h ?fin (envir (FORMALS generic ! k)) =
            (PRVALUE ?fin (envir (FORMALS generic ! k)), ?fin))"
  proof (intro allI impI)
    fix k
    assume k: "k < length (FORMALS generic)" "k < ?nd"
      "PRCODE st (envir (FORMALS generic ! k)) \<noteq> R_MissingArg"
    let ?a = "envir (FORMALS generic ! k)"
    have val: "(if Rf_inherits (fst (Rf_eval h st ?a)) ''R7_super''
        then VECTOR_ELT (fst (Rf_eval h st ?a)) 0 = Some (PRVALUE ?fin ?a)
        else PRVALUE ?fin ?a = fst (Rf_eval h st ?a)) \<and> mcall ! k = Promise ?a"
    proof (cases "Rf_inherits (fst (Rf_eval h st ?a)) ''R7_super''")
      case True
      with loop_super_at [OF loop dist k(1)] k(2,3) show ?thesis
        by (auto simp: slot sig signature_promises)
    next
      case False
      with loop_ordinary_at [OF loop dist k(1)] k(2,3) show ?thesis
        by (auto simp: slot sig signature_promises)
    qed
    then have arg: "mcall ! k = Promise ?a" by simp
    have "PRVALUE ?fin ?a \<noteq> R_UnboundValue \<longrightarrow>
        method_binding ?fin envir (mcall ! k) = Memoized (PRVALUE ?fin ?a) \<and>
        Rf_eval h ?fin ?a = (PRVALUE ?fin ?a, ?fin)"
      by (simp add: arg Rf_eval_def)
    with val show "(if Rf_inherits (fst (Rf_eval h st ?a)) ''R7_super''
        then VECTOR_ELT (fst (Rf_eval h st ?a)) 0 = Some (PRVALUE ?fin ?a)
        else PRVALUE ?fin ?a = fst (Rf_eval h st ?a)) \<and> mcall ! k = Promise ?a \<and>
       (PRVALUE ?fin ?a \<noteq> R_UnboundValue \<longrightarrow>
          method_binding ?fin envir (mcall ! k) = Memoized (PRVALUE ?fin ?a) \<and>
          Rf_eval h ?fin ?a = (PRVALUE ?fin ?a, ?fin))"
      by blast
  qed
  have rest: "\<forall>k < length (FORMALS generic). ?nd \<le> k \<longrightarrow>
       mcall ! k = Tagged (FORMALS generic ! k) (FORMALS generic ! k) \<and>
       promises ?fin (envir (FORMALS generic ! k)) = promises st (envir (FORMALS generic ! k)) \<and>
       method_binding ?fin envir (mcall ! k) = forwarded st envir (FORMALS generic ! k)"
  proof (intro allI impI)
    fix k
    assume k: "k < length (FORMALS generic)" "?nd \<le> k"
    from loop_non_dispatch_at [OF loop dist k(1)] k(2)
    have a: "mcall ! k = Tagged (FORMALS generic ! k) (FORMALS generic ! k)"
      and p: "promises ?fin (envir (FORMALS generic ! k)) = promises st (envir (FORMALS generic ! k))"
      by (simp_all add: fin sig)
    from p have "forwarded ?fin envir (FORMALS generic ! k) = forwarded st envir (FORMALS generic ! k)"
      by (simp add: forwarded_def PRCODE_def PRVALUE_def)
    with a p show "mcall ! k = Tagged (FORMALS generic ! k) (FORMALS generic ! k) \<and>
       promises ?fin (envir (FORMALS generic ! k)) = promises st (envir (FORMALS generic ! k)) \<and>
       method_binding ?fin envir (mcall ! k) = forwarded st envir (FORMALS generic ! k)"
      by simp
  qed
  have look: "shim_classes_are_names h st generic envir \<longrightarrow>
       list_all (reads_as_names st) dc \<and>
       fst (method_call' h st call generic envir) =
         (case fst (method' (snd (method_call_signature h st generic envir)) generic
                      (map class_names dc) (Some True)) of
            Returns m \<Rightarrow> Evaluates m mcall
          | other \<Rightarrow> other)"
    using signature_reads_as_names [OF built dist] method_call_state(3) [OF built, of call]
    by blast
  from built trace look disp rest show ?thesis
    by blast
qed

theorem dispatch_arguments_forced_once_witness:
  "evaluated (snd (method_call' h0 st0 R_NilValue speak env_super)) = [12, 11] \<and>
   evaluated (snd (method_call' h_bare st0 R_NilValue speak env_bare)) = [14, 11] \<and>
   evaluated (snd (method_call' h0 st0 R_NilValue fetch env_xy)) = [10] \<and>
   fst (method_call' h0 st0 R_NilValue fetch env_xy) = Evaluates m1 [Promise 10, Tagged ''y'' ''y''] \<and>
   PRVALUE (snd (method_call' h0 st0 R_NilValue fetch env_xy)) 10 = rex \<and>
   method_binding (snd (method_call' h0 st0 R_NilValue fetch env_xy)) env_xy (Promise 10) =
     Memoized rex \<and>
   Rf_eval h0 (snd (method_call' h0 st0 R_NilValue fetch env_xy)) 10 =
     (rex, snd (method_call' h0 st0 R_NilValue fetch env_xy)) \<and>
   promises (snd (method_call' h0 st0 R_NilValue fetch env_xy)) 11 = promises st0 11 \<and>
   method_binding (snd (method_call' h0 st0 R_NilValue fetch env_xy)) env_xy (Tagged ''y'' ''y'') =
     Deferred 11"
proof -
  have e0: "evaluated st0 = []"
    by code_simp
  have d1: "distinct (map env_super (FORMALS speak))"
    and l1: "shims_are_lists h0 st0 speak env_super"
    by code_simp+
  have f1: "filter (\<lambda>a. PRCODE st0 a \<noteq> R_MissingArg \<and> PRVALUE st0 a = R_UnboundValue)
      (map env_super (take (Rf_xlength st0 (Rf_getAttrib speak ''dispatch_args'')) (FORMALS speak))) =
      [12, 11]"
    by code_simp
  from dispatch_arguments_forced_once [OF d1 l1, of R_NilValue]
  have r1: "evaluated (snd (method_call' h0 st0 R_NilValue speak env_super)) = [12, 11]"
    unfolding f1 e0 by auto
  have d3: "distinct (map env_bare (FORMALS speak))"
    and l3: "shims_are_lists h_bare st0 speak env_bare"
    by code_simp+
  have f3: "filter (\<lambda>a. PRCODE st0 a \<noteq> R_MissingArg \<and> PRVALUE st0 a = R_UnboundValue)
      (map env_bare (take (Rf_xlength st0 (Rf_getAttrib speak ''dispatch_args'')) (FORMALS speak))) =
      [14, 11]"
    by code_simp
  from dispatch_arguments_forced_once [OF d3 l3, of R_NilValue]
  have r3: "evaluated (snd (method_call' h_bare st0 R_NilValue speak env_bare)) = [14, 11]"
    unfolding f3 e0 by auto
  have d2: "distinct (map env_xy (FORMALS fetch))"
    and l2: "shims_are_lists h0 st0 fetch env_xy"
    and n2: "shim_classes_are_names h0 st0 fetch env_xy"
    by code_simp+
  have f2: "filter (\<lambda>a. PRCODE st0 a \<noteq> R_MissingArg \<and> PRVALUE st0 a = R_UnboundValue)
      (map env_xy (take (Rf_xlength st0 (Rf_getAttrib fetch ''dispatch_args'')) (FORMALS fetch))) =
      [10]"
    by code_simp
  have built: "fst (method_call_signature h0 st0 fetch env_xy) =
      Inr ([Str [''dog'', ''animal'']], [Promise 10, Tagged ''y'' ''y''])"
    by code_simp
  have look: "fst (method' (snd (method_call_signature h0 st0 fetch env_xy)) fetch
      [[''dog'', ''animal'']] (Some True)) = Returns m1"
    by code_simp
  have k0: "(0::nat) < length (FORMALS fetch)" "0 < Rf_xlength st0 (Rf_getAttrib fetch ''dispatch_args'')"
    "PRCODE st0 (env_xy (FORMALS fetch ! 0)) \<noteq> R_MissingArg"
    "\<not> Rf_inherits (fst (Rf_eval h0 st0 (env_xy (FORMALS fetch ! 0)))) ''R7_super''"
    and v0: "fst (Rf_eval h0 st0 (env_xy (FORMALS fetch ! 0))) = rex"
      "env_xy (FORMALS fetch ! 0) = 10" "rex \<noteq> R_UnboundValue"
      "fst (Rf_eval h0 st0 10) = rex"
    by code_simp+
  have k1: "(1::nat) < length (FORMALS fetch)" "Rf_xlength st0 (Rf_getAttrib fetch ''dispatch_args'') \<le> 1"
    and v1: "FORMALS fetch ! 1 = ''y''" "env_xy ''y'' = 11"
      "forwarded st0 env_xy ''y'' = Deferred 11"
    by code_simp+
  let ?fin = "snd (method_call' h0 st0 R_NilValue fetch env_xy)"
  from dispatch_arguments_forced_once [OF d2 l2, of R_NilValue] n2
  obtain dc mcall where
    s: "fst (method_call_signature h0 st0 fetch env_xy) = Inr (dc, mcall)"
      "evaluated ?fin = evaluated st0 @
        filter (\<lambda>a. PRCODE st0 a \<noteq> R_MissingArg \<and> PRVALUE st0 a = R_UnboundValue)
          (map env_xy (take (Rf_xlength st0 (Rf_getAttrib fetch ''dispatch_args'')) (FORMALS fetch)))"
      "fst (method_call' h0 st0 R_NilValue fetch env_xy) =
        (case fst (method' (snd (method_call_signature h0 st0 fetch env_xy)) fetch
                     (map class_names dc) (Some True)) of
           Returns m \<Rightarrow> Evaluates m mcall
         | other \<Rightarrow> other)"
      "\<forall>k < length (FORMALS fetch).
         k < Rf_xlength st0 (Rf_getAttrib fetch ''dispatch_args'') \<longrightarrow>
         PRCODE st0 (env_xy (FORMALS fetch ! k)) \<noteq> R_MissingArg \<longrightarrow>
         (if Rf_inherits (fst (Rf_eval h0 st0 (env_xy (FORMALS fetch ! k)))) ''R7_super''
          then VECTOR_ELT (fst (Rf_eval h0 st0 (env_xy (FORMALS fetch ! k)))) 0 =
                 Some (PRVALUE ?fin (env_xy (FORMALS fetch ! k)))
          else PRVALUE ?fin (env_xy (FORMALS fetch ! k)) =
                 fst (Rf_eval h0 st0 (env_xy (FORMALS fetch ! k)))) \<and>
         mcall ! k = Promise (env_xy (FORMALS fetch ! k)) \<and>
         (PRVALUE ?fin (env_xy (FORMALS fetch ! k)) \<noteq> R_UnboundValue \<longrightarrow>
            method_binding ?fin env_xy (mcall ! k) =
              Memoized (PRVALUE ?fin (env_xy (FORMALS fetch ! k))) \<and>
            Rf_eval h0 ?fin (env_xy (FORMALS fetch ! k)) =
              (PRVALUE ?fin (env_xy (FORMALS fetch ! k)), ?fin))"
      "\<forall>k < length (FORMALS fetch).
         Rf_xlength st0 (Rf_getAttrib fetch ''dispatch_args'') \<le> k \<longrightarrow>
         mcall ! k = Tagged (FORMALS fetch ! k) (FORMALS fetch ! k) \<and>
         promises ?fin (env_xy (FORMALS fetch ! k)) = promises st0 (env_xy (FORMALS fetch ! k)) \<and>
         method_binding ?fin env_xy (mcall ! k) = forwarded st0 env_xy (FORMALS fetch ! k)"
    by blast
  from s(1) built have dc: "dc = [Str [''dog'', ''animal'']]"
    and mcall: "mcall = [Promise 10, Tagged ''y'' ''y'']"
    by simp_all
  from s(2) have r2: "evaluated ?fin = [10]"
    unfolding f2 e0 by simp
  from s(3) have call: "fst (method_call' h0 st0 R_NilValue fetch env_xy) =
      Evaluates m1 [Promise 10, Tagged ''y'' ''y'']"
    by (simp add: dc mcall look)
  from s(4) k0 have at0:
    "PRVALUE ?fin (env_xy (FORMALS fetch ! 0)) = fst (Rf_eval h0 st0 (env_xy (FORMALS fetch ! 0)))"
    "mcall ! 0 = Promise (env_xy (FORMALS fetch ! 0))"
    "PRVALUE ?fin (env_xy (FORMALS fetch ! 0)) \<noteq> R_UnboundValue \<longrightarrow>
       method_binding ?fin env_xy (mcall ! 0) = Memoized (PRVALUE ?fin (env_xy (FORMALS fetch ! 0))) \<and>
       Rf_eval h0 ?fin (env_xy (FORMALS fetch ! 0)) = (PRVALUE ?fin (env_xy (FORMALS fetch ! 0)), ?fin)"
    by auto
  from at0(1) have slot: "PRVALUE ?fin 10 = rex"
    unfolding v0(2) v0(4) .
  from at0(2,3) have memo: "method_binding ?fin env_xy (Promise 10) = Memoized rex"
    and again: "Rf_eval h0 ?fin 10 = (rex, ?fin)"
    unfolding v0(2) slot using v0(3) by (simp_all add: mcall)
  from s(5) k1 have at1:
    "promises ?fin (env_xy (FORMALS fetch ! 1)) = promises st0 (env_xy (FORMALS fetch ! 1))"
    "method_binding ?fin env_xy (mcall ! 1) = forwarded st0 env_xy (FORMALS fetch ! 1)"
    by auto
  from at1(1) have other: "promises ?fin 11 = promises st0 11"
    unfolding v1(1) v1(2) .
  from at1(2) have late: "method_binding ?fin env_xy (Tagged ''y'' ''y'') = Deferred 11"
    unfolding v1(1) v1(3) by (simp add: mcall)
  from r1 r3 r2 call slot memo again other late show ?thesis
    by blast
qed

section \<open>Lookup leaves its inputs alone\<close>

text \<open>
  C7. Method lookup changes neither the environments of the method table nor any
  promise (the signature is a value, which lookup only reads; the symbol table and the
  collaborator cache are all that may change), and its result with \<^verbatim>\<open>error = FALSE\<close>
  depends on the store through the environments only: a second call after the first,
  or a call in any store with the same environments, returns the same value.
\<close>

theorem method_pure:
  "frames (snd (method' st generic sg e)) = frames st \<and>
   promises (snd (method' st generic sg e)) = promises st \<and>
   fst (method' (snd (method' st generic sg (Some False))) generic sg (Some False)) =
     fst (method' st generic sg (Some False)) \<and>
   (\<forall>st'. frames st' = frames st \<longrightarrow>
      fst (method' st' generic sg (Some False)) = fst (method' st generic sg (Some False)))"
proof (intro conjI allI impI)
  show "frames (snd (method' st generic sg e)) = frames st"
    using method_state [of st generic sg e] by simp
  show "promises (snd (method' st generic sg e)) = promises st"
    using method_state [of st generic sg e] by simp
  have "frames (snd (method' st generic sg (Some False))) = frames st"
    using method_state [of st generic sg "Some False"] by simp
  then show "fst (method' (snd (method' st generic sg (Some False))) generic sg (Some False)) =
     fst (method' st generic sg (Some False))"
    by (rule method_result_frames)
next
  fix st' :: state assume "frames st' = frames st"
  then show "fst (method' st' generic sg (Some False)) = fst (method' st generic sg (Some False))"
    by (rule method_result_frames)
qed

theorem method_pure_witness:
  "frames (snd (method' st0 bark [[''dog'']] (Some False))) = speak_frames \<and>
   symtab (snd (method' st0 bark [[''dog'']] (Some False))) = [''dog'', ''methods''] \<and>
   fst (method' (snd (method' st0 bark [[''dog'']] (Some False))) bark [[''dog'']] (Some False)) =
     Returns m1 \<and>
   fst (method' (st0\<lparr>symtab := [''zebra'']\<rparr>) bark [[''dog'']] (Some False)) = Returns m1"
proof -
  have r: "fst (method' st0 bark [[''dog'']] (Some False)) = Returns m1"
    by code_simp
  have s: "symtab (snd (method' st0 bark [[''dog'']] (Some False))) = [''dog'', ''methods'']"
    by code_simp
  have f: "frames (st0\<lparr>symtab := [''zebra'']\<rparr>) = frames st0"
    by simp
  have g: "frames st0 = speak_frames"
    by (simp add: st0_def)
  from method_pure [of st0 bark "[[''dog'']]" "Some False"] f
  show ?thesis
    by (simp add: r s g)
qed

section \<open>A corrupt method table\<close>

text \<open>
  C8. For a generic whose \<^verbatim>\<open>methods\<close> attribute is not an environment, method lookup
  raises the error \<^verbatim>\<open>Corrupt R7_generic: @methods isn't an environment\<close>, whatever the
  signature and the error flag, before any resolution: in the store it leaves, only the
  symbol \<^verbatim>\<open>methods\<close> has been interned.
\<close>

theorem method_corrupt_table:
  "Rf_inherits generic ''R7_generic'' \<Longrightarrow>
   TYPEOF (Rf_getAttrib generic ''methods'') \<noteq> ENVSXP \<Longrightarrow>
   method' st generic sg e =
     (Raises ''Corrupt R7_generic: @methods isn't an environment'',
      st\<lparr>symtab := List.insert ''methods'' (symtab st)\<rparr>)"
  by (simp add: method'_def Rf_install_def)

theorem method_corrupt_table_witness:
  "method' st0 corrupt [[''dog'']] (Some False) =
     (Raises ''Corrupt R7_generic: @methods isn't an environment'', st0\<lparr>symtab := [''methods'']\<rparr>)"
proof -
  have gen: "Rf_inherits corrupt ''R7_generic''"
    by (simp add: Rf_inherits_def corrupt_def)
  have tab: "TYPEOF (Rf_getAttrib corrupt ''methods'') \<noteq> ENVSXP"
    by (simp add: Rf_getAttrib_def corrupt_def)
  show ?thesis
    using method_corrupt_table [OF gen tab, of st0 "[[''dog'']]" "Some False"]
    by (simp add: st0_def)
qed

section \<open>Lookup on something that is not a generic\<close>

text \<open>
  C9. When the first argument does not inherit from \<^verbatim>\<open>R7_generic\<close>, method lookup
  returns \<^verbatim>\<open>R_NilValue\<close> at once, whatever the signature and the error flag (also with
  \<^verbatim>\<open>error = TRUE\<close>): nothing is raised, the collaborator is not called, the store is
  unchanged.
\<close>

theorem method_not_generic:
  "\<not> Rf_inherits generic ''R7_generic'' \<Longrightarrow> method' st generic sg e = (Returns R_NilValue, st)"
  by (simp add: method'_def)

theorem method_not_generic_witness:
  "method' st0 plain [[''cat'']] (Some True) = (Returns R_NilValue, st0) \<and>
   method' st0 (Str [''speak'']) [[''cat'']] (Some True) = (Returns R_NilValue, st0)"
proof -
  have a: "\<not> Rf_inherits plain ''R7_generic''"
    by (simp add: Rf_inherits_def plain_def)
  have b: "\<not> Rf_inherits (Str [''speak'']) ''R7_generic''"
    by (simp add: Rf_inherits_def)
  show ?thesis
    using method_not_generic [OF a, of st0 "[[''cat'']]" "Some True"]
      method_not_generic [OF b, of st0 "[[''cat'']]" "Some True"]
    by simp
qed

section \<open>Termination of the resolver\<close>

text \<open>
  C10. \<open>method_rec\<close> returns on every store, table and signature, tables whose
  environments form cycles included: a budget of one more nested call than there are
  signature entries left is always enough, and a call whose iterator has reached the
  length of the signature returns \<^verbatim>\<open>R_NilValue\<close> at once, leaving the store as it was.
\<close>

theorem method_rec_terminates:
  "method_rec_depth (Suc (length signature - signature_itr)) st table signature signature_itr =
     Some (method_rec st table signature signature_itr) \<and>
   method_rec st table signature (length signature + k) = (R_NilValue, st)"
  by (simp add: method_rec_depth_total method_rec_past_end del: method_rec_depth.simps)

theorem method_rec_terminates_witness:
  "method_rec_depth 4 st0 3 [[''loop''], [''loop''], [''loop'']] 0 =
     Some (method_rec st0 3 [[''loop''], [''loop''], [''loop'']] 0) \<and>
   fst (method_rec st0 3 [[''loop''], [''loop''], [''loop'']] 0) = R_NilValue \<and>
   method_rec_depth 3 st0 3 [[''loop''], [''loop''], [''loop'']] 0 = None \<and>
   method_rec st0 3 [[''loop''], [''loop''], [''loop'']] 3 = (R_NilValue, st0)"
proof -
  have a: "fst (method_rec st0 3 [[''loop''], [''loop''], [''loop'']] 0) = R_NilValue"
    by code_simp
  have b: "method_rec_depth 3 st0 3 [[''loop''], [''loop''], [''loop'']] 0 = None"
    by code_simp
  have n: "Suc (length [[''loop''], [''loop''], [''loop'']] - 0) = 4"
    "length [[''loop''], [''loop''], [''loop'']] + 0 = 3"
    by simp_all
  from method_rec_terminates [of "[[''loop''], [''loop''], [''loop'']]" 0 st0 3 0]
  have "method_rec_depth 4 st0 3 [[''loop''], [''loop''], [''loop'']] 0 =
     Some (method_rec st0 3 [[''loop''], [''loop''], [''loop'']] 0) \<and>
     method_rec st0 3 [[''loop''], [''loop''], [''loop'']] 3 = (R_NilValue, st0)"
    unfolding n .
  with a b show ?thesis
    by (simp del: method_rec_depth.simps)
qed

end
